theory Spec2Isabelle
  imports Main "HOL-Library.Word" "HOL-Library.Multiset" "HOL-Library.Sublist"
begin

section \<open>Data model (src/cmd/root.go, lines 52-62)\<close>

text \<open>
  Go's \<open>int64\<close> is a 64-bit word: \<open>+\<close> wraps around, and the comparisons of the source
  are the signed ones (\<open>\<le>s\<close>, \<open><s\<close>). Go's \<open>int\<close> (slice indices, \<open>len\<close>) is modelled
  as \<open>int\<close>: an index never leaves the range \<open>-1 .. len data\<close>, far from any overflow.
\<close>

type_synonym int64 = "64 word"

record NameAndSize =
  Name :: string
  Size :: int64

type_synonym NameAndSizes = "NameAndSize list"

text \<open>A \<open>*tar.Writer\<close> is a handle; \<open>None\<close> is the nil pointer.\<close>

type_synonym tar_Writer = nat

record Plan =
  Pool :: NameAndSizes
  Writer :: "tar_Writer option"

text \<open>The run-time panics of the Go code that the model keeps as values.\<close>

datatype panic = IndexOutOfRange | NilDereference

section \<open>The bin packer: buildTarPlan (src/cmd/root.go, lines 118-172)\<close>

text \<open>\<open>data[i]\<close>: Go panics when the index is out of range.\<close>

definition index :: "NameAndSizes \<Rightarrow> int \<Rightarrow> panic + NameAndSize" where
  "index data i =
     (if 0 \<le> i \<and> i < int (length data) then Inr (data ! nat i) else Inl IndexOutOfRange)"

text \<open>The local variables of \<open>buildTarPlan\<close> (lines 121-128); the loop counter \<open>i\<close> is passed
  beside them.\<close>

record vars =
  plans :: "Plan list"
  currentPlanTotalSize :: int64
  currentPlan :: Plan
  endIndex :: int
  finished :: bool
  addToNext :: bool
  canAddSmall :: bool

text \<open>\<open>currentPlan.Pool = append(currentPlan.Pool, d)\<close> followed by the update of the
  running total (lines 132-133, 138-139, 159-160).\<close>

definition addToPlan :: "NameAndSize \<Rightarrow> vars \<Rightarrow> vars" where
  "addToPlan d s =
     s\<lparr>currentPlan := (currentPlan s)\<lparr>Pool := Pool (currentPlan s) @ [d]\<rparr>,
       currentPlanTotalSize := currentPlanTotalSize s + Size d\<rparr>"

text \<open>The inner loop \<open>for endIndex >= i { ... }\<close> (lines 136-145).\<close>

function fillFromReverse :: "NameAndSizes \<Rightarrow> int64 \<Rightarrow> int \<Rightarrow> vars \<Rightarrow> panic + vars" where
  "fillFromReverse data targetSize i s =
     (if endIndex s \<ge> i then
        (case index data (endIndex s) of
           Inl p \<Rightarrow> Inl p
         | Inr d \<Rightarrow>
             if currentPlanTotalSize s + Size d <s targetSize
             then fillFromReverse data targetSize i
                    ((addToPlan d s)\<lparr>endIndex := endIndex s - 1\<rparr>)
             else Inr (s\<lparr>canAddSmall := False\<rparr>))
      else Inr s)"
  by pat_completeness auto
termination
  by (relation "measure (\<lambda>(data, targetSize, i, s). nat (endIndex s - i + 1))")
     (auto simp: addToPlan_def)

declare fillFromReverse.simps [simp del]

text \<open>The \<open>if ... else\<close> at the head of the outer loop's body (lines 131-147).\<close>

definition fill :: "NameAndSizes \<Rightarrow> int64 \<Rightarrow> int \<Rightarrow> vars \<Rightarrow> panic + vars" where
  "fill data targetSize i s =
     (case index data i of
        Inl p \<Rightarrow> Inl p
      | Inr d \<Rightarrow>
          if currentPlanTotalSize s + Size d \<le>s targetSize
          then Inr (addToPlan d s)
          else (case fillFromReverse data targetSize i s of
                  Inl p \<Rightarrow> Inl p
                | Inr s' \<Rightarrow> Inr (s'\<lparr>addToNext := True\<rparr>)))"

text \<open>\<open>if i == endIndex { finished = true }\<close> (lines 148-150).\<close>

definition markFinished :: "int \<Rightarrow> vars \<Rightarrow> vars" where
  "markFinished i s = (if i = endIndex s then s\<lparr>finished := True\<rparr> else s)"

text \<open>\<open>if finished || !canAddSmall { ... }\<close> (lines 152-166): the current plan is appended
  to the plans, a new plan is started and, after an overflow, seeded with \<open>data[i]\<close>.\<close>

definition closePlan :: "NameAndSizes \<Rightarrow> int \<Rightarrow> vars \<Rightarrow> panic + vars" where
  "closePlan data i s =
     (if finished s \<or> \<not> canAddSmall s then
        let s1 = s\<lparr>plans := plans s @ [currentPlan s],
                   currentPlan := \<lparr>Pool = [], Writer = None\<rparr>,
                   currentPlanTotalSize := 0,
                   canAddSmall := True\<rparr>
        in if addToNext s1 then
             (case index data i of
                Inl p \<Rightarrow> Inl p
              | Inr d \<Rightarrow>
                  let s2 = (addToPlan d s1)\<lparr>addToNext := False\<rparr>
                  in Inr (if finished s2 then s2\<lparr>plans := plans s2 @ [currentPlan s2]\<rparr>
                          else s2))
           else Inr s1
      else Inr s)"

text \<open>One pass through the body of the outer loop (lines 131-166).\<close>

definition body :: "NameAndSizes \<Rightarrow> int64 \<Rightarrow> int \<Rightarrow> vars \<Rightarrow> panic + vars" where
  "body data targetSize i s =
     (case fill data targetSize i s of
        Inl p \<Rightarrow> Inl p
      | Inr s' \<Rightarrow> closePlan data i (markFinished i s'))"

text \<open>The inner loop never advances \<open>endIndex\<close>; the outer loop's termination rests on it.\<close>

lemma fillFromReverse_endIndex_le:
  "fillFromReverse data targetSize i s = Inr s' \<Longrightarrow> endIndex s' \<le> endIndex s"
proof (induction data targetSize i s rule: fillFromReverse.induct)
  case (1 data targetSize i s)
  show ?case
  proof (cases "endIndex s \<ge> i")
    case False
    with "1.prems" show ?thesis
      by (simp add: fillFromReverse.simps [of data targetSize i s])
  next
    case True
    then obtain d where d: "index data (endIndex s) = Inr d"
      using "1.prems"
      by (cases "index data (endIndex s)")
         (simp_all add: fillFromReverse.simps [of data targetSize i s])
    show ?thesis
    proof (cases "currentPlanTotalSize s + Size d <s targetSize")
      case False
      with True d "1.prems" show ?thesis
        by (auto simp: fillFromReverse.simps [of data targetSize i s])
    next
      case fits: True
      with True d "1.prems"
      have "fillFromReverse data targetSize i ((addToPlan d s)\<lparr>endIndex := endIndex s - 1\<rparr>) = Inr s'"
        by (simp add: fillFromReverse.simps [of data targetSize i s])
      from "1.IH" [OF True d fits this] show ?thesis
        by simp
    qed
  qed
qed

lemma body_endIndex_le:
  "body data targetSize i s = Inr s' \<Longrightarrow> endIndex s' \<le> endIndex s"
  by (auto simp: body_def fill_def closePlan_def markFinished_def addToPlan_def Let_def
           dest: fillFromReverse_endIndex_le
           split: sum.splits if_splits)

text \<open>The outer loop \<open>for i := 0; i <= endIndex; i++ { ...; if finished { break } }\<close>
  (lines 130-170).\<close>

function loop :: "NameAndSizes \<Rightarrow> int64 \<Rightarrow> int \<Rightarrow> vars \<Rightarrow> panic + vars" where
  "loop data targetSize i s =
     (if i \<le> endIndex s then
        (case body data targetSize i s of
           Inl p \<Rightarrow> Inl p
         | Inr s' \<Rightarrow> if finished s' then Inr s' else loop data targetSize (i + 1) s')
      else Inr s)"
  by pat_completeness auto
termination
proof (relation "measure (\<lambda>(data, targetSize, i, s). nat (endIndex s - i + 1))")
  show "wf (measure (\<lambda>(data, targetSize, i, s). nat (endIndex s - i + 1)))"
    by simp
next
  fix data :: NameAndSizes and targetSize :: int64 and i :: int and s s' :: vars
  assume "i \<le> endIndex s" and "body data targetSize i s = Inr s'"
  then show "((data, targetSize, i + 1, s'), (data, targetSize, i, s))
      \<in> measure (\<lambda>(data, targetSize, i, s). nat (endIndex s - i + 1))"
    using body_endIndex_le [of data targetSize i s s'] by simp
qed

declare loop.simps [simp del]

text \<open>The initial values of the local variables (lines 121-128).\<close>

definition initVars :: "NameAndSizes \<Rightarrow> vars" where
  "initVars data =
     \<lparr>plans = [], currentPlanTotalSize = 0,
      currentPlan = \<lparr>Pool = [], Writer = None\<rparr>,
      endIndex = int (length data) - 1,
      finished = False, addToNext = False, canAddSmall = True\<rparr>"

definition buildTarPlan :: "NameAndSizes \<Rightarrow> int64 \<Rightarrow> panic + Plan list" where
  "buildTarPlan data targetSize =
     (case loop data targetSize 0 (initVars data) of
        Inl p \<Rightarrow> Inl p
      | Inr s \<Rightarrow> Inr (plans s))"

section \<open>The bin packer of src/main.go (lines 80-134)\<close>

text \<open>
  \<open>src/main.go\<close> declares \<open>NameAndSize\<close>, \<open>NameAndSizes\<close> and \<open>Plan\<close> as
  \<open>src/cmd/root.go\<close> does, and has a \<open>buildTarPlan\<close> of its own, with the same local
  variables. It is translated here on its own, under the names \<open>main_...\<close>.
\<close>

text \<open>The inner loop (main.go, lines 98-107).\<close>

function main_fillFromReverse ::
  "NameAndSizes \<Rightarrow> int64 \<Rightarrow> int \<Rightarrow> vars \<Rightarrow> panic + vars" where
  "main_fillFromReverse data targetSize i s =
     (if endIndex s \<ge> i then
        (case index data (endIndex s) of
           Inl p \<Rightarrow> Inl p
         | Inr d \<Rightarrow>
             if currentPlanTotalSize s + Size d <s targetSize
             then main_fillFromReverse data targetSize i
                    ((addToPlan d s)\<lparr>endIndex := endIndex s - 1\<rparr>)
             else Inr (s\<lparr>canAddSmall := False\<rparr>))
      else Inr s)"
  by pat_completeness auto
termination
  by (relation "measure (\<lambda>(data, targetSize, i, s). nat (endIndex s - i + 1))")
     (auto simp: addToPlan_def)

declare main_fillFromReverse.simps [simp del]

text \<open>The \<open>if ... else\<close> at the head of the body (main.go, lines 93-109).\<close>

definition main_fill :: "NameAndSizes \<Rightarrow> int64 \<Rightarrow> int \<Rightarrow> vars \<Rightarrow> panic + vars" where
  "main_fill data targetSize i s =
     (case index data i of
        Inl p \<Rightarrow> Inl p
      | Inr d \<Rightarrow>
          if currentPlanTotalSize s + Size d \<le>s targetSize
          then Inr (addToPlan d s)
          else (case main_fillFromReverse data targetSize i s of
                  Inl p \<Rightarrow> Inl p
                | Inr s' \<Rightarrow> Inr (s'\<lparr>addToNext := True\<rparr>)))"

text \<open>\<open>if i == endIndex { finished = true }\<close> (main.go, lines 110-112).\<close>

definition main_markFinished :: "int \<Rightarrow> vars \<Rightarrow> vars" where
  "main_markFinished i s = (if i = endIndex s then s\<lparr>finished := True\<rparr> else s)"

text \<open>\<open>if finished || !canAddSmall { ... }\<close> (main.go, lines 114-128).\<close>

definition main_closePlan :: "NameAndSizes \<Rightarrow> int \<Rightarrow> vars \<Rightarrow> panic + vars" where
  "main_closePlan data i s =
     (if finished s \<or> \<not> canAddSmall s then
        let s1 = s\<lparr>plans := plans s @ [currentPlan s],
                   currentPlan := \<lparr>Pool = [], Writer = None\<rparr>,
                   currentPlanTotalSize := 0,
                   canAddSmall := True\<rparr>
        in if addToNext s1 then
             (case index data i of
                Inl p \<Rightarrow> Inl p
              | Inr d \<Rightarrow>
                  let s2 = (addToPlan d s1)\<lparr>addToNext := False\<rparr>
                  in Inr (if finished s2 then s2\<lparr>plans := plans s2 @ [currentPlan s2]\<rparr>
                          else s2))
           else Inr s1
      else Inr s)"

definition main_body :: "NameAndSizes \<Rightarrow> int64 \<Rightarrow> int \<Rightarrow> vars \<Rightarrow> panic + vars" where
  "main_body data targetSize i s =
     (case main_fill data targetSize i s of
        Inl p \<Rightarrow> Inl p
      | Inr s' \<Rightarrow> main_closePlan data i (main_markFinished i s'))"

text \<open>The pieces of the two bodies agree; the termination of the outer loop of
  \<open>main.go\<close> is taken over from that of \<open>root.go\<close>.\<close>

lemma main_fillFromReverse_eq:
  "main_fillFromReverse data targetSize i s = fillFromReverse data targetSize i s"
proof (induction data targetSize i s rule: fillFromReverse.induct)
  case (1 data targetSize i s)
  show ?case
  proof (cases "index data (endIndex s)")
    case (Inl p)
    then show ?thesis
      by (simp add: fillFromReverse.simps [of data targetSize i s]
          main_fillFromReverse.simps [of data targetSize i s])
  next
    case (Inr d)
    with "1.IH" [of d] show ?thesis
      by (simp add: fillFromReverse.simps [of data targetSize i s]
          main_fillFromReverse.simps [of data targetSize i s])
  qed
qed

lemma main_body_eq: "main_body data targetSize i s = body data targetSize i s"
proof -
  have "main_fill data targetSize i s = fill data targetSize i s"
    unfolding main_fill_def fill_def main_fillFromReverse_eq ..
  moreover have "main_closePlan data i = closePlan data i"
    by (rule ext) (simp add: main_closePlan_def closePlan_def)
  moreover have "main_markFinished i = markFinished i"
    by (rule ext) (simp add: main_markFinished_def markFinished_def)
  ultimately show ?thesis
    by (simp add: main_body_def body_def cong: sum.case_cong)
qed

text \<open>The outer loop (main.go, lines 92-132).\<close>

function main_loop :: "NameAndSizes \<Rightarrow> int64 \<Rightarrow> int \<Rightarrow> vars \<Rightarrow> panic + vars" where
  "main_loop data targetSize i s =
     (if i \<le> endIndex s then
        (case main_body data targetSize i s of
           Inl p \<Rightarrow> Inl p
         | Inr s' \<Rightarrow> if finished s' then Inr s' else main_loop data targetSize (i + 1) s')
      else Inr s)"
  by pat_completeness auto
termination
proof (relation "measure (\<lambda>(data, targetSize, i, s). nat (endIndex s - i + 1))")
  show "wf (measure (\<lambda>(data, targetSize, i, s). nat (endIndex s - i + 1)))"
    by simp
next
  fix data :: NameAndSizes and targetSize :: int64 and i :: int and s s' :: vars
  assume "i \<le> endIndex s" and "main_body data targetSize i s = Inr s'"
  then show "((data, targetSize, i + 1, s'), (data, targetSize, i, s))
      \<in> measure (\<lambda>(data, targetSize, i, s). nat (endIndex s - i + 1))"
    using body_endIndex_le [of data targetSize i s s'] by (simp add: main_body_eq)
qed

declare main_loop.simps [simp del]

text \<open>The initial values (main.go, lines 83-90) and the function itself.\<close>

definition main_initVars :: "NameAndSizes \<Rightarrow> vars" where
  "main_initVars data =
     \<lparr>plans = [], currentPlanTotalSize = 0,
      currentPlan = \<lparr>Pool = [], Writer = None\<rparr>,
      endIndex = int (length data) - 1,
      finished = False, addToNext = False, canAddSmall = True\<rparr>"

definition main_buildTarPlan :: "NameAndSizes \<Rightarrow> int64 \<Rightarrow> panic + Plan list" where
  "main_buildTarPlan data targetSize =
     (case main_loop data targetSize 0 (main_initVars data) of
        Inl p \<Rightarrow> Inl p
      | Inr s \<Rightarrow> Inr (plans s))"

section \<open>The two passes over the archive and the pipeline (src/cmd/root.go)\<close>

subsection \<open>The libraries, as far as the code depends on them\<close>

text \<open>
  The file system, \<open>compress/gzip\<close>, \<open>archive/tar\<close> and \<open>sort\<close> are not part of the
  repository. What they return is a parameter of the model, the record \<open>world\<close> below;
  only \<open>filepath.Ext\<close>, which decides a branch of the code, and \<open>filepath.Base\<close> are
  written out (for paths with the separator \<open>/\<close>).
\<close>

type_synonym byte = "8 word"

text \<open>An error value of Go. The two errors that the code builds itself with \<open>fmt.Errorf\<close>
  are kept apart from those that the libraries return: \<open>CouldNotCreate i fn msg\<close> is the
  error of line 203, made of the index \<open>i\<close>, the name \<open>fn\<close> and the message of the error of
  \<open>os.Create\<close>; \<open>MissingWriterPtr name\<close> is the error of line 231.\<close>

datatype error =
  LibraryError string
| CouldNotCreate int string string
| MissingWriterPtr string

text \<open>The fields of \<open>tar.Header\<close> that the code reads: \<open>Name\<close>, \<open>Typeflag\<close> and \<open>Size\<close>
  (through \<open>FileInfo().Size()\<close>). \<open>Name\<close> and \<open>Size\<close> are fields of \<open>NameAndSize\<close>
  already, hence the prefix.\<close>

record Header =
  Header_Name :: string
  Typeflag :: byte
  Header_Size :: int64

text \<open>\<open>tar.TypeReg = '0'\<close> and \<open>tar.TypeDir = '5'\<close>.\<close>

definition TypeReg :: byte where
  "TypeReg = 48"

definition TypeDir :: byte where
  "TypeDir = 53"

text \<open>
  One call of \<open>Next()\<close> on a \<open>tar.Reader\<close> returns a header and the \<open>nil\<close> error (the
  payload \<open>'p\<close> of the entry can then be read from the reader), a \<open>nil\<close> header and the \<open>nil\<close>
  error, or an error other than \<open>io.EOF\<close>. A tar reader is the list of what its successive
  calls return; at the end of the list \<open>Next()\<close> returns \<open>io.EOF\<close>.
\<close>

datatype 'p next_result = Next Header 'p | NextNil | NextErr error

record 'p world =
  os_Open :: "string \<Rightarrow> error + byte list"
  gzip_NewReader :: "byte list \<Rightarrow> error + byte list"
  tar_NewReader :: "byte list \<Rightarrow> 'p next_result list"
  os_Create :: "int \<Rightarrow> string \<Rightarrow> string option"
  WriteHeader :: "tar_Writer \<Rightarrow> Header \<Rightarrow> error option"
  io_Copy :: "tar_Writer \<Rightarrow> Header \<Rightarrow> error option"
  sort_Reverse :: "NameAndSizes \<Rightarrow> NameAndSizes"

text \<open>
  \<^item> \<open>os_Open\<close>: the bytes of the file named, or the error of \<open>os.Open\<close>;
  \<^item> \<open>gzip_NewReader\<close>: the decompressed stream, or the error of \<open>gzip.NewReader\<close>;
  \<^item> \<open>tar_NewReader\<close>: what \<open>tar.NewReader\<close> over a stream of bytes yields;
  \<^item> \<open>os_Create i fn\<close>: the message \<open>err.Error()\<close> of the error, if any, of
    \<open>os.Create(fmt.Sprintf("%v-%s", i, fn))\<close>;
  \<^item> \<open>WriteHeader mw header\<close>: the error, if any, of \<open>mw.WriteHeader(header)\<close>;
  \<^item> \<open>io_Copy mw header\<close>: the error, if any, of \<open>io.Copy(mw, tarReader)\<close> for the
    payload of the entry \<open>header\<close>;
  \<^item> \<open>sort_Reverse\<close>: the slice after \<open>sort.Sort(sort.Reverse(data))\<close>.
\<close>

text \<open>\<open>filepath.Ext\<close>: scanning from the end of the path and stopping at a path separator,
  the suffix that starts at the first dot met; empty when there is none.\<close>

fun extFrom :: "string \<Rightarrow> string \<Rightarrow> string" where
  "extFrom [] seen = []"
| "extFrom (c # cs) seen =
     (if c = CHR ''/'' then []
      else if c = CHR ''.'' then c # seen
      else extFrom cs (c # seen))"

definition filepath_Ext :: "string \<Rightarrow> string" where
  "filepath_Ext path = extFrom (rev path) []"

text \<open>\<open>filepath.Base\<close>: the last element of the path, trailing separators removed first;
  \<open>.\<close> for the empty path and \<open>/\<close> for a path of separators only.\<close>

definition filepath_Base :: "string \<Rightarrow> string" where
  "filepath_Base path =
     (if path = [] then ''.''
      else let stripped = dropWhile (\<lambda>c. c = CHR ''/'') (rev path);
               element = rev (takeWhile (\<lambda>c. c \<noteq> CHR ''/'') stripped)
           in if element = [] then ''/'' else element)"

text \<open>An \<open>io.Reader\<close> variable holds a stream of bytes or is \<open>nil\<close> (\<open>None\<close>). \<open>Next()\<close> on
  a tar reader made from the \<open>nil\<close> reader dereferences it and panics.\<close>

definition readAll :: "'p world \<Rightarrow> byte list option \<Rightarrow> panic + 'p next_result list" where
  "readAll w r = (case r of None \<Rightarrow> Inl NilDereference | Some bs \<Rightarrow> Inr (tar_NewReader w bs))"

subsection \<open>The indexing pass: generateSlice (lines 78-116)\<close>

text \<open>
  The value of the function's variable \<open>tarreader\<close> at line 98, where the tar reader is
  made from it (lines 80-96), or the error returned before. The variable is declared
  \<open>nil\<close> at line 80. In the \<open>.gz\<close> branch, line 89 declares with \<open>:=\<close> a new \<open>tarreader\<close>
  whose scope is that branch: the outer one is not assigned.
\<close>

definition tarreader :: "'p world \<Rightarrow> string \<Rightarrow> error + byte list option" where
  "tarreader w filename =
     (case os_Open w filename of
        Inl err \<Rightarrow> Inl err
      | Inr filereader \<Rightarrow>
          if filepath_Ext filename = ''.gz'' then
            (case gzip_NewReader w filereader of
               Inl err \<Rightarrow> Inl err
             | Inr inner_tarreader \<Rightarrow> Inr None)
          else Inr (Some filereader))"

text \<open>The loop of lines 101-115, \<open>info\<close> being the slice built so far.\<close>

fun scan :: "'p next_result list \<Rightarrow> NameAndSizes \<Rightarrow> NameAndSizes \<times> error option" where
  "scan [] info = (info, None)"
| "scan (NextErr err # rest) info = ([], Some err)"
| "scan (NextNil # rest) info = scan rest info"
| "scan (Next header payload # rest) info =
     scan rest (info @ [\<lparr>Name = Header_Name header, Size = Header_Size header\<rparr>])"

definition generateSlice :: "'p world \<Rightarrow> string \<Rightarrow> panic + (NameAndSizes \<times> error option)" where
  "generateSlice w filename =
     (case tarreader w filename of
        Inl err \<Rightarrow> Inr ([], Some err)
      | Inr r \<Rightarrow>
          (case readAll w r of
             Inl p \<Rightarrow> Inl p
           | Inr tr \<Rightarrow> Inr (scan tr [])))"

subsection \<open>The rewrite pass: createNewTars (lines 174-238)\<close>

text \<open>The value of \<open>genericReader\<close> at line 196 (lines 176-194), or the error returned
  before: as in the indexing pass, line 187 declares a new variable, here under another
  name (\<open>tarReader\<close>), and \<open>genericReader\<close> stays \<open>nil\<close> in the \<open>.gz\<close> branch.\<close>

definition genericReader :: "'p world \<Rightarrow> string \<Rightarrow> error + byte list option" where
  "genericReader w filename =
     (case os_Open w filename of
        Inl err \<Rightarrow> Inl err
      | Inr osReader \<Rightarrow>
          if filepath_Ext filename = ''.gz'' then
            (case gzip_NewReader w osReader of
               Inl err \<Rightarrow> Inl err
             | Inr inner_tarReader \<Rightarrow> Inr None)
          else Inr (Some osReader))"

text \<open>What has been written to one destination archive: headers and payloads, in the
  order of the calls. The destinations are numbered as the plans are; the writer \<open>tw\<close> of
  destination \<open>i\<close> is the handle \<open>i\<close>.\<close>

datatype 'p written = WroteHeader Header | WrotePayload 'p

type_synonym 'p outputs = "'p written list list"

definition writeTo :: "tar_Writer \<Rightarrow> 'p written \<Rightarrow> 'p outputs \<Rightarrow> 'p outputs" where
  "writeTo mw x outs = outs[mw := outs ! mw @ [x]]"

text \<open>\<open>for _, fn := range plan.Pool { filenamePtrMap[fn.Name] = tw }\<close> (lines 208-210).\<close>

fun assign :: "tar_Writer \<Rightarrow> NameAndSizes \<Rightarrow> (string \<rightharpoonup> tar_Writer) \<Rightarrow> (string \<rightharpoonup> tar_Writer)" where
  "assign tw [] filenamePtrMap = filenamePtrMap"
| "assign tw (fn # pool) filenamePtrMap = assign tw pool (filenamePtrMap(Name fn \<mapsto> tw))"

text \<open>\<open>for i, plan := range *plans { ... }\<close> (lines 200-211), from the plan of index
  \<open>length outs\<close> on: the destinations created, and the map or the error returned.\<close>

fun createTarballs ::
  "'p world \<Rightarrow> string \<Rightarrow> Plan list \<Rightarrow> (string \<rightharpoonup> tar_Writer) \<Rightarrow> 'p outputs \<Rightarrow>
     (error + (string \<rightharpoonup> tar_Writer)) \<times> 'p outputs" where
  "createTarballs w fn [] filenamePtrMap outs = (Inr filenamePtrMap, outs)"
| "createTarballs w fn (plan # rest) filenamePtrMap outs =
     (case os_Create w (int (length outs)) fn of
        Some msg \<Rightarrow> (Inl (CouldNotCreate (int (length outs)) fn msg), outs)
      | None \<Rightarrow>
          createTarballs w fn rest
            (assign (length outs) (Pool plan) filenamePtrMap) (outs @ [[]]))"

text \<open>The loop of lines 213-237: the error returned (\<open>None\<close> is \<open>nil\<close>) and what has been
  written.\<close>

fun rewrite ::
  "'p world \<Rightarrow> (string \<rightharpoonup> tar_Writer) \<Rightarrow> 'p next_result list \<Rightarrow> 'p outputs \<Rightarrow>
     error option \<times> 'p outputs" where
  "rewrite w filenamePtrMap [] outs = (None, outs)"
| "rewrite w filenamePtrMap (NextErr err # rest) outs = (Some err, outs)"
| "rewrite w filenamePtrMap (NextNil # rest) outs = rewrite w filenamePtrMap rest outs"
| "rewrite w filenamePtrMap (Next header payload # rest) outs =
     (if Typeflag header = TypeReg then
        (case filenamePtrMap (Header_Name header) of
           None \<Rightarrow> (Some (MissingWriterPtr (Header_Name header)), outs)
         | Some mw \<Rightarrow>
             (case WriteHeader w mw header of
                Some err \<Rightarrow> (Some err, outs)
              | None \<Rightarrow>
                  (case io_Copy w mw header of
                     Some err \<Rightarrow> (Some err, writeTo mw (WroteHeader header) outs)
                   | None \<Rightarrow>
                       rewrite w filenamePtrMap rest
                         (writeTo mw (WrotePayload payload)
                            (writeTo mw (WroteHeader header) outs)))))
      else rewrite w filenamePtrMap rest outs)"

text \<open>The function returns an error or \<open>nil\<close>, or panics; in each case the destinations
  created so far exist, with what has been written to them.\<close>

definition createNewTars ::
  "'p world \<Rightarrow> string \<Rightarrow> Plan list \<Rightarrow> (panic + error option) \<times> 'p outputs" where
  "createNewTars w filename planList =
     (case genericReader w filename of
        Inl err \<Rightarrow> (Inr (Some err), [])
      | Inr r \<Rightarrow>
          (case createTarballs w (filepath_Base filename) planList Map.empty [] of
             (Inl err, outs) \<Rightarrow> (Inr (Some err), outs)
           | (Inr filenamePtrMap, outs) \<Rightarrow>
               (case readAll w r of
                  Inl p \<Rightarrow> (Inl p, outs)
                | Inr tarReader \<Rightarrow>
                    (case rewrite w filenamePtrMap tarReader outs of
                       (err, outs') \<Rightarrow> (Inr err, outs')))))"

subsection \<open>The pipeline: split (lines 27-28, 41-43, 64-76)\<close>

text \<open>How a run ends: normally, in \<open>log.Fatal\<close> with an error, or in a panic.\<close>

datatype ending = Done | Fatal error | Panicked panic

text \<open>
  The package variable \<open>targetSize\<close> (line 28) holds the value of the flag
  \<open>--targetsize\<close>, whose default (line 42) is 5368709120; it is the second argument here.
  Line 70 declares a local \<open>targetSize\<close> with the constant 8600000000, and it is this
  local variable that line 71 passes to \<open>buildTarPlan\<close>.
\<close>

definition targetsize_default :: int64 where
  "targetsize_default = 5368709120"

definition split :: "'p world \<Rightarrow> int64 \<Rightarrow> string \<Rightarrow> ending \<times> 'p outputs" where
  "split w targetSize_flag filename =
     (case generateSlice w filename of
        Inl p \<Rightarrow> (Panicked p, [])
      | Inr (data, Some err) \<Rightarrow> (Fatal err, [])
      | Inr (data, None) \<Rightarrow>
          (let sorted_data = sort_Reverse w data;
               targetSize = 8600000000
           in case buildTarPlan sorted_data targetSize of
                Inl p \<Rightarrow> (Panicked p, [])
              | Inr planList \<Rightarrow>
                  (case createNewTars w filename planList of
                     (Inl p, outs) \<Rightarrow> (Panicked p, outs)
                   | (Inr (Some err), outs) \<Rightarrow> (Fatal err, outs)
                   | (Inr None, outs) \<Rightarrow> (Done, outs))))"

section \<open>Properties of the bin packer\<close>

subsection \<open>Notions the properties are stated with\<close>

text \<open>The exact (unbounded) sum of the sizes of a list of entries, each read as the signed
  integer it is in Go.\<close>

definition sizeSum :: "NameAndSizes \<Rightarrow> int" where
  "sizeSum xs = sum_list (map (\<lambda>d. sint (Size d)) xs)"


text \<open>An inventory as the specification describes it (every size a non-negative number of
  bytes) whose sizes add up to less than \<open>2^63\<close>, so that no \<open>int64\<close> sum of any of its
  entries wraps around.\<close>

definition inventoryFits :: "NameAndSizes \<Rightarrow> bool" where
  "inventoryFits data \<longleftrightarrow> list_all (\<lambda>d. 0 \<le>s Size d) data \<and> sizeSum data < 2 ^ 63"

text \<open>Descending by size, the order in which \<open>split\<close> hands the inventory over.\<close>

definition sortedDescending :: "NameAndSizes \<Rightarrow> bool" where
  "sortedDescending data = sorted_wrt (\<lambda>a b. Size b \<le>s Size a) data"

text \<open>The budget rule for one plan, on the exact sum and on the \<open>int64\<close> sum: the plan
  is a single entry larger than the target, or its total is at most the target.\<close>

definition planOK :: "int64 \<Rightarrow> Plan \<Rightarrow> bool" where
  "planOK T p \<longleftrightarrow> (\<exists>e. Pool p = [e] \<and> T <s Size e) \<or> sizeSum (Pool p) \<le> sint T"


text \<open>Entries added one after the other, each under the strict test of the inner loop
  (line 137), starting from the running total \<open>t\<close>.\<close>

fun strictlyFits :: "int64 \<Rightarrow> int64 \<Rightarrow> NameAndSizes \<Rightarrow> bool" where
  "strictlyFits T t [] = True"
| "strictlyFits T t (d # ds) = (t + Size d <s T \<and> strictlyFits T (t + Size d) ds)"

text \<open>The entries between the two pointers: \<open>data[i .. e]\<close>.\<close>

definition unassigned :: "NameAndSizes \<Rightarrow> int \<Rightarrow> int \<Rightarrow> NameAndSizes" where
  "unassigned data i e = take (nat (e + 1 - i)) (drop (nat i) data)"

text \<open>Invariants of the two loops, for inventories that fit: the running total is exact and
  cannot overflow on any entry still unassigned; the plans closed so far and the current
  plan hold exactly \<open>data[0 .. i-1]\<close> and \<open>data[endIndex+1 ..]\<close>.\<close>

definition exactTotal :: "NameAndSizes \<Rightarrow> int \<Rightarrow> vars \<Rightarrow> bool" where
  "exactTotal data i s \<longleftrightarrow>
     sint (currentPlanTotalSize s) = sizeSum (Pool (currentPlan s)) \<and>
     0 \<le> sizeSum (Pool (currentPlan s)) \<and>
     sizeSum (Pool (currentPlan s)) + sizeSum (unassigned data i (endIndex s)) < 2 ^ 63"

definition backfilled :: "NameAndSizes \<Rightarrow> int64 \<Rightarrow> int \<Rightarrow> vars \<Rightarrow> vars \<Rightarrow> bool" where
  "backfilled data T i s s' \<longleftrightarrow>
     i \<le> endIndex s' \<and> endIndex s' \<le> endIndex s \<and> \<not> canAddSmall s' \<and>
     plans s' = plans s \<and> finished s' = finished s \<and> addToNext s' = addToNext s \<and>
     mset (Pool (currentPlan s')) + mset (drop (nat (endIndex s + 1)) data) =
       mset (Pool (currentPlan s)) + mset (drop (nat (endIndex s' + 1)) data) \<and>
     exactTotal data i s' \<and>
     (Pool (currentPlan s') = Pool (currentPlan s) \<or> sizeSum (Pool (currentPlan s')) < sint T)"

definition packInv :: "NameAndSizes \<Rightarrow> int64 \<Rightarrow> int \<Rightarrow> vars \<Rightarrow> bool" where
  "packInv data T i s \<longleftrightarrow>
     0 \<le> i \<and> i \<le> endIndex s \<and> endIndex s < int (length data) \<and>
     \<not> finished s \<and> \<not> addToNext s \<and> canAddSmall s \<and>
     mset (concat (map Pool (plans s))) + mset (Pool (currentPlan s)) =
       mset (take (nat i) data) + mset (drop (nat (endIndex s + 1)) data) \<and>
     exactTotal data i s \<and>
     (0 \<le>s T \<longrightarrow> (\<forall>p\<in>set (plans s). planOK T p) \<and> planOK T (currentPlan s))"

definition packed :: "NameAndSizes \<Rightarrow> int64 \<Rightarrow> vars \<Rightarrow> bool" where
  "packed data T s \<longleftrightarrow>
     mset (concat (map Pool (plans s))) = mset data \<and>
     (0 \<le>s T \<longrightarrow> (\<forall>p\<in>set (plans s). planOK T p))"


text \<open>Inventories used as concrete inputs below: scenario 1 of the specification, and one
  whose sizes overflow \<open>int64\<close> when added.\<close>

definition scenario1 :: NameAndSizes where
  "scenario1 = [\<lparr>Name = ''a'', Size = 100\<rparr>, \<lparr>Name = ''b'', Size = 90\<rparr>,
                \<lparr>Name = ''c'', Size = 80\<rparr>, \<lparr>Name = ''d'', Size = 5\<rparr>]"

definition overflowing :: NameAndSizes where
  "overflowing = [\<lparr>Name = ''a'', Size = 0x7FFFFFFFFFFFFFFF\<rparr>, \<lparr>Name = ''b'', Size = 2\<rparr>]"

text \<open>An inventory on which a total of exactly the target arises, and the variables of
  \<open>buildTarPlan\<close> once the first entry \<open>d\<close> of the inventory is in the first plan.\<close>

definition exactFit :: NameAndSizes where
  "exactFit = [\<lparr>Name = ''a'', Size = 60\<rparr>, \<lparr>Name = ''b'', Size = 50\<rparr>, \<lparr>Name = ''c'', Size = 40\<rparr>]"

definition holding :: "NameAndSizes \<Rightarrow> NameAndSize \<Rightarrow> vars" where
  "holding data d =
     (initVars data)\<lparr>currentPlan := \<lparr>Pool = [d], Writer = None\<rparr>, currentPlanTotalSize := Size d\<rparr>"

subsection \<open>Notions the properties of the rewrite pass are stated with\<close>

text \<open>The stream that the tar reader of the rewrite pass parses: empty when the pass
  returns or panics before it reads anything.\<close>

definition parsed :: "'p world \<Rightarrow> string \<Rightarrow> 'p next_result list" where
  "parsed w filename =
     (case genericReader w filename of
        Inr (Some bs) \<Rightarrow> tar_NewReader w bs
      | _ \<Rightarrow> [])"

text \<open>The entries of a tar stream, in the order of the stream.\<close>

fun entriesRead :: "'p next_result list \<Rightarrow> (Header \<times> 'p) list" where
  "entriesRead [] = []"
| "entriesRead (Next header payload # rest) = (header, payload) # entriesRead rest"
| "entriesRead (NextNil # rest) = entriesRead rest"
| "entriesRead (NextErr err # rest) = entriesRead rest"

text \<open>The kind regular-file is the type flag \<open>TypeReg\<close>.\<close>

definition regular :: "Header \<times> 'p \<Rightarrow> bool" where
  "regular e \<longleftrightarrow> Typeflag (fst e) = TypeReg"

text \<open>What copying one entry writes to its destination, and what copying every
  regular-file entry of a stream writes, in the order of the stream.\<close>

fun asWritten :: "Header \<times> 'p \<Rightarrow> 'p written list" where
  "asWritten (header, payload) = [WroteHeader header, WrotePayload payload]"

definition regularItems :: "'p next_result list \<Rightarrow> 'p written list" where
  "regularItems tr = concat (map asWritten (filter regular (entriesRead tr)))"

text \<open>The map \<open>filenamePtrMap\<close> as lines 200-211 build it when every destination can be
  created: the routing table from entry names to destinations.\<close>

fun assignAll :: "nat \<Rightarrow> Plan list \<Rightarrow> (string \<rightharpoonup> tar_Writer) \<Rightarrow> (string \<rightharpoonup> tar_Writer)" where
  "assignAll i [] filenamePtrMap = filenamePtrMap"
| "assignAll i (plan # rest) filenamePtrMap =
     assignAll (Suc i) rest (assign i (Pool plan) filenamePtrMap)"

definition routingTable :: "Plan list \<Rightarrow> (string \<rightharpoonup> tar_Writer)" where
  "routingTable planList = assignAll 0 planList Map.empty"

text \<open>A regular-file entry whose name the routing table does not map.\<close>

fun unrouted :: "(string \<rightharpoonup> tar_Writer) \<Rightarrow> 'p next_result \<Rightarrow> bool" where
  "unrouted m (Next header payload) = (Typeflag header = TypeReg \<and> m (Header_Name header) = None)"
| "unrouted m NextNil = False"
| "unrouted m (NextErr err) = False"

text \<open>No failure of the underlying input and output: the source opens (and, for a
  \<open>.gz\<close> name, its gzip header is read), every destination can be created, no write
  fails, and the tar reader of the pass reports no error.\<close>

fun readFails :: "'p next_result \<Rightarrow> bool" where
  "readFails (NextErr err) = True"
| "readFails (Next header payload) = False"
| "readFails NextNil = False"

definition noIOFailure :: "'p world \<Rightarrow> string \<Rightarrow> bool" where
  "noIOFailure w filename \<longleftrightarrow>
     (\<exists>r. genericReader w filename = Inr r) \<and>
     (\<forall>i. os_Create w i (filepath_Base filename) = None) \<and>
     (\<forall>mw header. WriteHeader w mw header = None \<and> io_Copy w mw header = None) \<and>
     (\<forall>ev \<in> set (parsed w filename). \<not> readFails ev)"

subsection \<open>Concrete worlds and archives\<close>

text \<open>A world in which nothing fails and every file holds the tar stream \<open>tr\<close>;
  \<open>sort.Sort(sort.Reverse(data))\<close> is a sort by descending size.\<close>

definition quietWorld :: "'p next_result list \<Rightarrow> 'p world" where
  "quietWorld tr =
     \<lparr>os_Open = (\<lambda>name. Inr []), gzip_NewReader = (\<lambda>bs. Inr []),
      tar_NewReader = (\<lambda>bs. tr), os_Create = (\<lambda>i name. None),
      WriteHeader = (\<lambda>mw header. None), io_Copy = (\<lambda>mw header. None),
      sort_Reverse = (\<lambda>data. rev (sort_key (\<lambda>d. sint (Size d)) data))\<rparr>"

text \<open>An archive of one directory and two regular files (payloads as strings), and one of
  two regular files of 3000000000 and 4000000000 bytes (payloads kept symbolic).\<close>

definition dirEntry :: Header where
  "dirEntry = \<lparr>Header_Name = ''etc/'', Typeflag = TypeDir, Header_Size = 0\<rparr>"

definition fileA :: Header where
  "fileA = \<lparr>Header_Name = ''etc/a'', Typeflag = TypeReg, Header_Size = 3\<rparr>"

definition fileB :: Header where
  "fileB = \<lparr>Header_Name = ''etc/b'', Typeflag = TypeReg, Header_Size = 2\<rparr>"

definition smallArchive :: "string next_result list" where
  "smallArchive = [Next dirEntry [], Next fileA ''aaa'', Next fileB ''bb'']"

definition bigA :: Header where
  "bigA = \<lparr>Header_Name = ''a'', Typeflag = TypeReg, Header_Size = 4000000000\<rparr>"

definition bigB :: Header where
  "bigB = \<lparr>Header_Name = ''b'', Typeflag = TypeReg, Header_Size = 3000000000\<rparr>"

definition bigArchive :: "string next_result list" where
  "bigArchive = [Next bigB ''payload of b'', Next bigA ''payload of a'']"

subsection \<open>Totality and index safety (C9)\<close>

lemma index_in_range:
  "0 \<le> i \<Longrightarrow> i < int (length data) \<Longrightarrow> index data i = Inr (data ! nat i)"
  by (simp add: index_def)

lemma fillFromReverse_safe:
  "0 \<le> i \<Longrightarrow> endIndex s < int (length data) \<Longrightarrow>
     \<exists>s'. fillFromReverse data targetSize i s = Inr s'"
proof (induction data targetSize i s rule: fillFromReverse.induct)
  case (1 data targetSize i s)
  show ?case
  proof (cases "endIndex s \<ge> i")
    case False
    then show ?thesis
      by (simp add: fillFromReverse.simps [of data targetSize i s])
  next
    case True
    with "1.prems" have d: "index data (endIndex s) = Inr (data ! nat (endIndex s))"
      by (simp add: index_in_range)
    show ?thesis
    proof (cases "currentPlanTotalSize s + Size (data ! nat (endIndex s)) <s targetSize")
      case False
      with True d show ?thesis
        by (simp add: fillFromReverse.simps [of data targetSize i s])
    next
      case fits: True
      have "\<exists>s'. fillFromReverse data targetSize i
              ((addToPlan (data ! nat (endIndex s)) s)\<lparr>endIndex := endIndex s - 1\<rparr>) = Inr s'"
        using "1.IH" [OF True d fits] "1.prems" by (simp add: addToPlan_def)
      with True d fits show ?thesis
        by (simp add: fillFromReverse.simps [of data targetSize i s])
    qed
  qed
qed

lemma body_safe:
  assumes "0 \<le> i" "i \<le> endIndex s" "endIndex s < int (length data)"
  shows "\<exists>s'. body data targetSize i s = Inr s'"
proof -
  from assms have d: "index data i = Inr (data ! nat i)"
    by (simp add: index_in_range)
  have "\<exists>s1. fill data targetSize i s = Inr s1"
    using fillFromReverse_safe [OF assms(1,3), of targetSize] d
    by (auto simp: fill_def)
  then obtain s1 where s1: "fill data targetSize i s = Inr s1" ..
  have "\<exists>s'. closePlan data i (markFinished i s1) = Inr s'"
    using d by (simp add: closePlan_def Let_def)
  with s1 show ?thesis
    by (simp add: body_def)
qed

lemma loop_safe:
  "0 \<le> i \<Longrightarrow> endIndex s < int (length data) \<Longrightarrow> \<exists>s'. loop data targetSize i s = Inr s'"
proof (induction data targetSize i s rule: loop.induct)
  case (1 data targetSize i s)
  show ?case
  proof (cases "i \<le> endIndex s")
    case False
    then show ?thesis
      by (simp add: loop.simps [of data targetSize i s])
  next
    case True
    with "1.prems" obtain s' where s': "body data targetSize i s = Inr s'"
      using body_safe by blast
    show ?thesis
    proof (cases "finished s'")
      case True
      with \<open>i \<le> endIndex s\<close> s' show ?thesis
        by (simp add: loop.simps [of data targetSize i s])
    next
      case False
      have "endIndex s' < int (length data)"
        using body_endIndex_le [OF s'] "1.prems" by simp
      with "1.IH" [OF True s' False] "1.prems"
      have "\<exists>s''. loop data targetSize (i + 1) s' = Inr s''" by simp
      with True s' False show ?thesis
        by (simp add: loop.simps [of data targetSize i s])
    qed
  qed
qed

text \<open>
  C9. \<open>buildTarPlan\<close> is total: \<open>loop\<close> and \<open>fillFromReverse\<close> are defined by recursion
  whose termination is proved above (the distance \<open>endIndex - i\<close> shrinks on every
  pass of either loop), and on every input list (any sizes, any order, the empty list
  included) and every target it returns a plan list, never the out-of-range panic that
  \<open>index\<close> yields for an access \<open>data[i]\<close> or \<open>data[endIndex]\<close> outside
  \<open>0 \<le> index < len data\<close>.
\<close>

theorem buildTarPlan_total: "\<exists>ps. buildTarPlan data targetSize = Inr ps"
proof -
  have "\<exists>s'. loop data targetSize 0 (initVars data) = Inr s'"
    by (rule loop_safe) (simp_all add: initVars_def)
  then show ?thesis
    by (auto simp: buildTarPlan_def)
qed

subsection \<open>Coverage (C3)\<close>

lemma sizeSum_simps [simp]:
  "sizeSum [] = 0"
  "sizeSum (d # xs) = sint (Size d) + sizeSum xs"
  "sizeSum (xs @ ys) = sizeSum xs + sizeSum ys"
  by (simp_all add: sizeSum_def)

lemma sizeSum_nonneg:
  "\<forall>d\<in>set xs. 0 \<le> sint (Size d) \<Longrightarrow> 0 \<le> sizeSum xs"
  by (induction xs) simp_all

lemma set_unassigned: "set (unassigned data i e) \<subseteq> set data"
  unfolding unassigned_def by (meson set_take_subset set_drop_subset subset_trans)

lemma unassigned_front:
  assumes "0 \<le> i" "i \<le> e" "e < int (length data)"
  shows "unassigned data i e = data ! nat i # unassigned data (i + 1) e"
proof -
  have "nat i < length data" using assms by simp
  then have "drop (nat i) data = data ! nat i # drop (Suc (nat i)) data"
    by (simp add: Cons_nth_drop_Suc)
  moreover have "nat (e + 1 - i) = Suc (nat (e - i))" using assms by simp
  moreover have "nat (i + 1) = Suc (nat i)" using assms by simp
  ultimately show ?thesis
    by (simp add: unassigned_def)
qed

lemma unassigned_back:
  assumes "0 \<le> i" "i \<le> e" "e < int (length data)"
  shows "unassigned data i e = unassigned data i (e - 1) @ [data ! nat e]"
proof -
  have n: "nat (e - i) < length (drop (nat i) data)" using assms by simp
  have "nat (e + 1 - i) = Suc (nat (e - i))" using assms by simp
  moreover have "drop (nat i) data ! nat (e - i) = data ! nat e"
    using assms by (simp add: nat_diff_distrib)
  ultimately show ?thesis
    using take_Suc_conv_app_nth [OF n] by (simp add: unassigned_def)
qed

lemma unassigned_empty: "e < i \<Longrightarrow> unassigned data i e = []"
  by (simp add: unassigned_def)

lemma sint_add_exact:
  fixes a b :: int64
  assumes "0 \<le> sint a + sint b" "sint a + sint b < 2 ^ 63"
  shows "sint (a + b) = sint a + sint b"
proof -
  have "- (2 ^ 63) \<le> sint a + sint b" using assms(1) by simp
  with assms(2) show ?thesis
    by (simp add: sint_word_ariths signed_take_bit_int_eq_self)
qed

lemma exactTotal_add_last:
  assumes nn: "\<forall>d\<in>set data. 0 \<le> sint (Size d)"
    and rng: "0 \<le> i" "i \<le> endIndex s" "endIndex s < int (length data)"
    and ex: "exactTotal data i s"
  shows "exactTotal data i ((addToPlan (data ! nat (endIndex s)) s)\<lparr>endIndex := endIndex s - 1\<rparr>)"
proof -
  let ?d = "data ! nat (endIndex s)"
  have mem: "?d \<in> set data" using rng by simp
  have split: "sizeSum (unassigned data i (endIndex s)) =
      sizeSum (unassigned data i (endIndex s - 1)) + sint (Size ?d)"
    using unassigned_back [OF rng] by simp
  have rest: "0 \<le> sizeSum (unassigned data i (endIndex s - 1))"
    using nn set_unassigned [of data i "endIndex s - 1"] by (intro sizeSum_nonneg) blast
  have d0: "0 \<le> sint (Size ?d)" using nn mem by blast
  from ex have tot: "sint (currentPlanTotalSize s) = sizeSum (Pool (currentPlan s))"
    and p0: "0 \<le> sizeSum (Pool (currentPlan s))"
    and bd: "sizeSum (Pool (currentPlan s)) + sizeSum (unassigned data i (endIndex s)) < 2 ^ 63"
    by (simp_all add: exactTotal_def)
  have "sint (currentPlanTotalSize s + Size ?d) = sint (currentPlanTotalSize s) + sint (Size ?d)"
    using tot p0 bd split rest d0 by (intro sint_add_exact) simp_all
  with tot p0 bd split d0 show ?thesis
    by (simp add: exactTotal_def addToPlan_def)
qed

lemma fillFromReverse_backfilled:
  assumes nn: "\<forall>d\<in>set data. 0 \<le> sint (Size d)"
  shows "0 \<le> i \<Longrightarrow> i \<le> endIndex s \<Longrightarrow> endIndex s < int (length data) \<Longrightarrow>
     exactTotal data i s \<Longrightarrow>
     sint T < sizeSum (Pool (currentPlan s)) + sint (Size (data ! nat i)) \<Longrightarrow>
     \<exists>s'. fillFromReverse data T i s = Inr s' \<and> backfilled data T i s s'"
  using nn
proof (induction data T i s rule: fillFromReverse.induct)
  case (1 data T i s)
  let ?e = "endIndex s"
  let ?d = "data ! nat ?e"
  let ?s2 = "(addToPlan ?d s)\<lparr>endIndex := ?e - 1\<rparr>"
  note nn = \<open>\<forall>d\<in>set data. 0 \<le> sint (Size d)\<close>
  have rng: "0 \<le> i" "i \<le> ?e" "?e < int (length data)" using "1.prems" by simp_all
  have ex: "exactTotal data i s" using "1.prems" by simp
  have over: "sint T < sizeSum (Pool (currentPlan s)) + sint (Size (data ! nat i))"
    using "1.prems" by simp
  have d: "index data ?e = Inr ?d" using rng by (simp add: index_in_range)
  have ex2: "exactTotal data i ?s2" by (rule exactTotal_add_last [OF nn rng ex])
  have tot2: "sint (currentPlanTotalSize s + Size ?d) = sizeSum (Pool (currentPlan s)) + sint (Size ?d)"
    using ex2 by (simp add: exactTotal_def addToPlan_def)
  show ?case
  proof (cases "currentPlanTotalSize s + Size ?d <s T")
    case False
    with rng d have "fillFromReverse data T i s = Inr (s\<lparr>canAddSmall := False\<rparr>)"
      by (simp add: fillFromReverse.simps [of data T i s])
    moreover have "backfilled data T i s (s\<lparr>canAddSmall := False\<rparr>)"
      using rng ex by (simp add: backfilled_def exactTotal_def)
    ultimately show ?thesis by simp
  next
    case fits: True
    then have lt: "sizeSum (Pool (currentPlan s)) + sint (Size ?d) < sint T"
      using tot2 by (simp add: word_sless_alt)
    with over have "?e \<noteq> i" by auto
    with rng have i2: "i \<le> endIndex ?s2" by (simp add: addToPlan_def)
    have d0: "0 \<le> sint (Size ?d)" using nn rng by simp
    have over2: "sint T < sizeSum (Pool (currentPlan ?s2)) + sint (Size (data ! nat i))"
      using over d0 by (simp add: addToPlan_def)
    have "\<exists>s'. fillFromReverse data T i ?s2 = Inr s' \<and> backfilled data T i ?s2 s'"
      using "1.IH" [OF rng(2) d fits rng(1) i2 _ ex2 over2 nn] rng
      by (simp add: addToPlan_def)
    then obtain s' where s': "fillFromReverse data T i ?s2 = Inr s'"
      and b: "backfilled data T i ?s2 s'" by blast
    from rng d fits s' have r: "fillFromReverse data T i s = Inr s'"
      by (simp add: fillFromReverse.simps [of data T i s])
    have dr: "drop (nat (?e - 1 + 1)) data = ?d # drop (nat (?e + 1)) data"
      using rng by (simp add: Cons_nth_drop_Suc nat_add_distrib)
    have "sizeSum (Pool (currentPlan s')) < sint T"
      using b lt by (auto simp: backfilled_def addToPlan_def exactTotal_def)
    moreover have "mset (Pool (currentPlan s')) + mset (drop (nat (?e + 1)) data) =
       mset (Pool (currentPlan s)) + mset (drop (nat (endIndex s' + 1)) data)"
    proof -
      have "mset (Pool (currentPlan s')) + mset (drop (nat (endIndex ?s2 + 1)) data) =
          mset (Pool (currentPlan ?s2)) + mset (drop (nat (endIndex s' + 1)) data)"
        using b unfolding backfilled_def by blast
      then have "mset (Pool (currentPlan s')) + mset (?d # drop (nat (?e + 1)) data) =
          mset (Pool (currentPlan s) @ [?d]) + mset (drop (nat (endIndex s' + 1)) data)"
        using dr by (simp add: addToPlan_def)
      then show ?thesis by simp
    qed
    ultimately have "backfilled data T i s s'"
      using b by (simp add: backfilled_def addToPlan_def)
    with r show ?thesis by simp
  qed
qed

lemma exactTotal_add_first:
  assumes nn: "\<forall>d\<in>set data. 0 \<le> sint (Size d)"
    and rng: "0 \<le> i" "i \<le> endIndex s" "endIndex s < int (length data)"
    and ex: "exactTotal data i s"
  shows "exactTotal data (i + 1) (addToPlan (data ! nat i) s)"
proof -
  let ?d = "data ! nat i"
  have mem: "?d \<in> set data" using rng by simp
  have split: "sizeSum (unassigned data i (endIndex s)) =
      sint (Size ?d) + sizeSum (unassigned data (i + 1) (endIndex s))"
    using unassigned_front [OF rng] by simp
  have rest: "0 \<le> sizeSum (unassigned data (i + 1) (endIndex s))"
    using nn set_unassigned [of data "i + 1" "endIndex s"] by (intro sizeSum_nonneg) blast
  have d0: "0 \<le> sint (Size ?d)" using nn mem by blast
  from ex have tot: "sint (currentPlanTotalSize s) = sizeSum (Pool (currentPlan s))"
    and p0: "0 \<le> sizeSum (Pool (currentPlan s))"
    and bd: "sizeSum (Pool (currentPlan s)) + sizeSum (unassigned data i (endIndex s)) < 2 ^ 63"
    by (simp_all add: exactTotal_def)
  have "sint (currentPlanTotalSize s + Size ?d) = sint (currentPlanTotalSize s) + sint (Size ?d)"
    using tot p0 bd split rest d0 by (intro sint_add_exact) simp_all
  with tot p0 bd split d0 show ?thesis
    by (simp add: exactTotal_def addToPlan_def)
qed

lemma exactTotal_seed:
  assumes nn: "\<forall>d\<in>set data. 0 \<le> sint (Size d)"
    and rng: "0 \<le> i" "i \<le> endIndex s" "endIndex s < int (length data)"
    and ex: "exactTotal data i s"
  shows "exactTotal data (i + 1)
     (s\<lparr>currentPlan := \<lparr>Pool = [data ! nat i], Writer = w\<rparr>,
        currentPlanTotalSize := 0 + Size (data ! nat i)\<rparr>)"
proof -
  let ?d = "data ! nat i"
  have mem: "?d \<in> set data" using rng by simp
  have split: "sizeSum (unassigned data i (endIndex s)) =
      sint (Size ?d) + sizeSum (unassigned data (i + 1) (endIndex s))"
    using unassigned_front [OF rng] by simp
  have d0: "0 \<le> sint (Size ?d)" using nn mem by blast
  from ex have p0: "0 \<le> sizeSum (Pool (currentPlan s))"
    and bd: "sizeSum (Pool (currentPlan s)) + sizeSum (unassigned data i (endIndex s)) < 2 ^ 63"
    by (simp_all add: exactTotal_def)
  with split d0 show ?thesis
    by (simp add: exactTotal_def)
qed

lemma take_drop_step:
  assumes "0 \<le> i" "i < int (length data)"
  shows "mset (take (nat (i + 1)) data) = mset (take (nat i) data) + {#data ! nat i#}"
proof -
  have "nat (i + 1) = Suc (nat i)" using assms by simp
  moreover have "nat i < length data" using assms by simp
  ultimately show ?thesis
    by (simp add: take_Suc_conv_app_nth)
qed

lemma take_drop_all:
  assumes "0 \<le> i" "i < int (length data)"
  shows "mset (take (nat i) data) + {#data ! nat i#} + mset (drop (nat (i + 1)) data) = mset data"
proof -
  have "nat (i + 1) = Suc (nat i)" using assms by simp
  moreover have "nat i < length data" using assms by simp
  moreover from this have "data = take (nat i) data @ data ! nat i # drop (Suc (nat i)) data"
    by (rule id_take_nth_drop)
  then have "mset data = mset (take (nat i) data @ data ! nat i # drop (Suc (nat i)) data)"
    by simp
  ultimately show ?thesis
    by simp
qed


lemma planOK_seed: "planOK T \<lparr>Pool = [d], Writer = w\<rparr>"
  by (auto simp: planOK_def word_sless_alt)

lemma body_packInv:
  assumes nn: "\<forall>d\<in>set data. 0 \<le> sint (Size d)"
    and inv: "packInv data T i s"
  shows "\<exists>s'. body data T i s = Inr s' \<and>
     (if finished s' then packed data T s' else packInv data T (i + 1) s')"
proof -
  let ?d = "data ! nat i"
  let ?e = "endIndex s"
  from inv have rng: "0 \<le> i" "i \<le> ?e" "?e < int (length data)"
    and flags: "\<not> finished s" "\<not> addToNext s" "canAddSmall s"
    and cov: "mset (concat (map Pool (plans s))) + mset (Pool (currentPlan s)) =
       mset (take (nat i) data) + mset (drop (nat (?e + 1)) data)"
    and ex: "exactTotal data i s"
    and bud: "0 \<le>s T \<longrightarrow> (\<forall>p\<in>set (plans s). planOK T p) \<and> planOK T (currentPlan s)"
    by (simp_all add: packInv_def)
  have d: "index data i = Inr ?d" using rng by (simp add: index_in_range)
  have ilen: "i < int (length data)" using rng by simp
  have ex1: "exactTotal data (i + 1) (addToPlan ?d s)"
    by (rule exactTotal_add_first [OF nn rng ex])
  then have tot1: "sint (currentPlanTotalSize s + Size ?d) =
      sizeSum (Pool (currentPlan s)) + sint (Size ?d)"
    by (simp add: exactTotal_def addToPlan_def)
  show ?thesis
  proof (cases "currentPlanTotalSize s + Size ?d \<le>s T")
    case fits: True
    then have f: "fill data T i s = Inr (addToPlan ?d s)"
      using d by (simp add: fill_def)
    have ok1: "planOK T (currentPlan (addToPlan ?d s))"
      using fits tot1 by (simp add: planOK_def addToPlan_def word_sle_eq)
    show ?thesis
    proof (cases "i = ?e")
      case True
      let ?s' = "(addToPlan ?d s)\<lparr>finished := True,
          plans := plans s @ [currentPlan (addToPlan ?d s)],
          currentPlan := \<lparr>Pool = [], Writer = None\<rparr>,
          currentPlanTotalSize := 0, canAddSmall := True\<rparr>"
      have b: "body data T i s = Inr ?s'"
        using f True flags by (simp add: body_def markFinished_def closePlan_def addToPlan_def)
      have "mset (concat (map Pool (plans ?s'))) =
          mset (take (nat i) data) + {#?d#} + mset (drop (nat (i + 1)) data)"
        using cov True by (simp add: addToPlan_def)
      then have "mset (concat (map Pool (plans ?s'))) = mset data"
        using take_drop_all [OF rng(1) ilen] by simp
      moreover have "0 \<le>s T \<longrightarrow> (\<forall>p\<in>set (plans ?s'). planOK T p)"
        using bud ok1 by (simp add: addToPlan_def)
      ultimately have "packed data T ?s'"
        unfolding packed_def by blast
      with b show ?thesis by simp
    next
      case False
      have b: "body data T i s = Inr (addToPlan ?d s)"
        using f False flags by (simp add: body_def markFinished_def closePlan_def addToPlan_def)
      have "mset (concat (map Pool (plans s))) + mset (Pool (currentPlan s) @ [?d]) =
          mset (take (nat (i + 1)) data) + mset (drop (nat (?e + 1)) data)"
        using cov take_drop_step [OF rng(1) ilen] by simp
      then have "packInv data T (i + 1) (addToPlan ?d s)"
        using rng False flags ex1 bud ok1 by (simp add: packInv_def addToPlan_def)
      with b flags show ?thesis by (simp add: addToPlan_def)
    qed
  next
    case over: False
    then have over': "sint T < sizeSum (Pool (currentPlan s)) + sint (Size ?d)"
      using tot1 by (simp add: word_sle_eq)
    obtain s1 where s1: "fillFromReverse data T i s = Inr s1" and bf: "backfilled data T i s s1"
      using fillFromReverse_backfilled [OF nn rng ex over'] by blast
    from bf have rng1: "i \<le> endIndex s1" "endIndex s1 \<le> ?e"
      and flags1: "\<not> canAddSmall s1" "\<not> finished s1"
      and pl1: "plans s1 = plans s"
      and cov1: "mset (Pool (currentPlan s1)) + mset (drop (nat (?e + 1)) data) =
         mset (Pool (currentPlan s)) + mset (drop (nat (endIndex s1 + 1)) data)"
      and ex1': "exactTotal data i s1"
      and bud1: "Pool (currentPlan s1) = Pool (currentPlan s) \<or>
         sizeSum (Pool (currentPlan s1)) < sint T"
      using flags by (simp_all add: backfilled_def)
    have f: "fill data T i s = Inr (s1\<lparr>addToNext := True\<rparr>)"
      using d over s1 by (simp add: fill_def)
    have len1: "endIndex s1 < int (length data)" using rng rng1 by simp
    have ok1: "0 \<le>s T \<longrightarrow> planOK T (currentPlan s1)"
      using bud bud1 by (auto simp: planOK_def)
    have cov2: "mset (concat (map Pool (plans s))) + mset (Pool (currentPlan s1)) =
        mset (take (nat i) data) + mset (drop (nat (endIndex s1 + 1)) data)"
    proof -
      have "mset (concat (map Pool (plans s))) + mset (Pool (currentPlan s1)) +
          mset (drop (nat (?e + 1)) data) =
        mset (concat (map Pool (plans s))) + mset (Pool (currentPlan s)) +
          mset (drop (nat (endIndex s1 + 1)) data)"
        using cov1 by (simp add: add.assoc)
      also have "\<dots> = mset (take (nat i) data) + mset (drop (nat (endIndex s1 + 1)) data) +
          mset (drop (nat (?e + 1)) data)"
        using cov by (simp add: add.commute add.left_commute)
      finally show ?thesis by simp
    qed
    let ?seed = "\<lparr>Pool = [?d], Writer = None\<rparr>"
    let ?s2 = "s1\<lparr>plans := plans s @ [currentPlan s1],
                  currentPlan := ?seed,
                  currentPlanTotalSize := 0 + Size ?d,
                  canAddSmall := True, addToNext := False\<rparr>"
    show ?thesis
    proof (cases "i = endIndex s1")
      case True
      let ?s' = "?s2\<lparr>finished := True, plans := plans s @ [currentPlan s1, ?seed]\<rparr>"
      have b: "body data T i s = Inr ?s'"
        using f True flags1 d pl1
        by (simp add: body_def markFinished_def closePlan_def addToPlan_def)
      have "mset (concat (map Pool (plans ?s'))) =
          mset (take (nat i) data) + {#?d#} + mset (drop (nat (i + 1)) data)"
        using cov2 True by simp
      then have "mset (concat (map Pool (plans ?s'))) = mset data"
        using take_drop_all [OF rng(1) ilen] by simp
      moreover have "0 \<le>s T \<longrightarrow> (\<forall>p\<in>set (plans ?s'). planOK T p)"
        using bud ok1 planOK_seed by simp
      ultimately have "packed data T ?s'"
        unfolding packed_def by blast
      with b show ?thesis by simp
    next
      case False
      have b: "body data T i s = Inr ?s2"
        using f False flags1 d pl1
        by (simp add: body_def markFinished_def closePlan_def addToPlan_def)
      have ex2: "exactTotal data (i + 1) ?s2"
        using exactTotal_seed [OF nn rng(1) rng1(1) len1 ex1', of None]
        by (simp add: exactTotal_def)
      have "mset (concat (map Pool (plans ?s2))) + mset (Pool (currentPlan ?s2)) =
          mset (take (nat (i + 1)) data) + mset (drop (nat (endIndex ?s2 + 1)) data)"
        using cov2 take_drop_step [OF rng(1) ilen] by simp
      moreover have "0 \<le>s T \<longrightarrow> (\<forall>p\<in>set (plans ?s2). planOK T p) \<and> planOK T (currentPlan ?s2)"
        using bud ok1 planOK_seed by simp
      ultimately have "packInv data T (i + 1) ?s2"
        using rng rng1 len1 False flags1 ex2 unfolding packInv_def by simp
      with b flags1 show ?thesis by simp
    qed
  qed
qed


lemma loop_packed:
  assumes nn: "\<forall>d\<in>set data. 0 \<le> sint (Size d)"
  shows "packInv data T i s \<Longrightarrow> \<exists>s'. loop data T i s = Inr s' \<and> packed data T s'"
  using nn
proof (induction data T i s rule: loop.induct)
  case (1 data T i s)
  note nn = \<open>\<forall>d\<in>set data. 0 \<le> sint (Size d)\<close>
  from "1.prems" have le: "i \<le> endIndex s" by (simp add: packInv_def)
  obtain s' where b: "body data T i s = Inr s'"
    and post: "if finished s' then packed data T s' else packInv data T (i + 1) s'"
    using body_packInv [OF nn "1.prems"(1)] by blast
  show ?case
  proof (cases "finished s'")
    case True
    with le b post show ?thesis
      by (simp add: loop.simps [of data T i s])
  next
    case False
    with post have "packInv data T (i + 1) s'" by simp
    from "1.IH" [OF le b False this nn]
    show ?thesis using le b False
      by (simp add: loop.simps [of data T i s])
  qed
qed

lemma unassigned_all: "unassigned data 0 (int (length data) - 1) = data"
  by (simp add: unassigned_def)

lemma buildTarPlan_packed:
  assumes fits: "inventoryFits data"
  shows "\<exists>ps. buildTarPlan data T = Inr ps \<and>
     mset (concat (map Pool ps)) = mset data \<and>
     (0 \<le>s T \<longrightarrow> (\<forall>p\<in>set ps. planOK T p))"
proof (cases "data = []")
  case True
  then show ?thesis
    by (simp add: buildTarPlan_def initVars_def loop.simps)
next
  case False
  from fits have nn: "\<forall>d\<in>set data. 0 \<le> sint (Size d)"
    and bound: "sizeSum data < 2 ^ 63"
    by (simp_all add: inventoryFits_def list_all_iff word_sle_eq)
  have "exactTotal data 0 (initVars data)"
    using bound by (simp add: exactTotal_def initVars_def unassigned_all)
  moreover have "0 \<le>s T \<longrightarrow> planOK T \<lparr>Pool = [], Writer = None\<rparr>"
    by (simp add: planOK_def word_sle_eq)
  ultimately have "packInv data T 0 (initVars data)"
    using False by (simp add: packInv_def initVars_def)
  from loop_packed [OF nn this]
  obtain s' where "loop data T 0 (initVars data) = Inr s'" and "packed data T s'"
    by blast
  then show ?thesis
    by (simp add: buildTarPlan_def initVars_def packed_def)
qed


lemma scenario1_fits: "inventoryFits scenario1"
  by (simp add: inventoryFits_def scenario1_def sizeSum_def word_sle_eq)

text \<open>
  C3, as the code has it. For every inventory whose sizes are non-negative and add up to
  less than \<open>2^63\<close> (sorted or not, empty or not) and every target, \<open>buildTarPlan\<close> returns
  plans whose pools, concatenated, are a permutation of the inventory: no entry is left
  out, none is in two plans, and no plan holds an entry that is not in the inventory.
\<close>

theorem buildTarPlan_coverage:
  assumes "inventoryFits data"
  shows "\<exists>ps. buildTarPlan data T = Inr ps \<and> mset (concat (map Pool ps)) = mset data"
  using buildTarPlan_packed [OF assms, of T] by blast

theorem buildTarPlan_coverage_witness:
  "inventoryFits scenario1 \<and>
   (\<exists>ps. buildTarPlan scenario1 150 = Inr ps \<and> mset (concat (map Pool ps)) = mset scenario1)"
  using buildTarPlan_coverage [OF scenario1_fits, of 150] scenario1_fits by simp

text \<open>
  C3 as stated (every non-empty inventory sorted descending, every positive target) fails
  where the running total wraps around: with the entries \<open>a\<close> of \<open>2^63 - 1\<close> bytes and \<open>b\<close> of
  2 bytes and the target 100, \<open>a\<close> does not fit, the inner loop adds \<open>b\<close>, then
  \<open>2 + (2^63 - 1)\<close> wraps to a negative total below the target and \<open>a\<close> is added too,
  \<open>endIndex\<close> falls below \<open>i\<close>, and the outer loop ends without closing the plan: no plan is
  returned at all.
\<close>

theorem buildTarPlan_coverage_overflow:
  "overflowing \<noteq> [] \<and> sortedDescending overflowing \<and> 0 <s (100 :: int64) \<and>
   buildTarPlan overflowing 100 = Inr [] \<and>
   mset (concat (map Pool [])) \<noteq> mset overflowing"
  by (simp add: overflowing_def sortedDescending_def buildTarPlan_def initVars_def loop.simps
      body_def fill_def index_def fillFromReverse.simps closePlan_def markFinished_def
      addToPlan_def word_sle_eq word_sless_alt)

subsection \<open>Budget (C4)\<close>











subsection \<open>A single oversized entry (C2)\<close>

lemma buildTarPlan_single:
  "T <s Size e \<Longrightarrow>
   buildTarPlan [e] T = Inr [\<lparr>Pool = [], Writer = None\<rparr>, \<lparr>Pool = [e], Writer = None\<rparr>]"
  by (simp add: buildTarPlan_def initVars_def loop.simps body_def fill_def index_def
      fillFromReverse.simps closePlan_def markFinished_def addToPlan_def
      word_sle_eq word_sless_alt)

text \<open>
  C2. For the inventory of the single entry \<open>{x, 999}\<close> and the target 100 the claim expects
  exactly one plan, \<open>[{x, 999}]\<close>. The code returns two: the entry does not fit the empty
  current plan, so that empty plan is closed and appended first (line 153), and the
  entry is seeded into a second plan (lines 159-164). The entry is not rejected, and
  its plan exceeds the target.
\<close>

theorem oversized_entry_two_plans:
  "buildTarPlan [\<lparr>Name = ''x'', Size = 999\<rparr>] 100 =
     Inr [\<lparr>Pool = [], Writer = None\<rparr>,
          \<lparr>Pool = [\<lparr>Name = ''x'', Size = 999\<rparr>], Writer = None\<rparr>]"
  by (simp add: buildTarPlan_single word_sless_alt)

subsection \<open>Strict backfill, inclusive forward rule (C6)\<close>

lemma fillFromReverse_strictlyFits:
  "fillFromReverse data T i s = Inr s' \<Longrightarrow>
     \<exists>ds. Pool (currentPlan s') = Pool (currentPlan s) @ ds \<and>
          strictlyFits T (currentPlanTotalSize s) ds \<and>
          int (length ds) = endIndex s - endIndex s'"
proof (induction data T i s rule: fillFromReverse.induct)
  case (1 data T i s)
  show ?case
  proof (cases "endIndex s \<ge> i")
    case False
    with "1.prems" show ?thesis
      by (simp add: fillFromReverse.simps [of data T i s])
  next
    case True
    then obtain d where d: "index data (endIndex s) = Inr d"
      using "1.prems"
      by (cases "index data (endIndex s)")
         (simp_all add: fillFromReverse.simps [of data T i s])
    show ?thesis
    proof (cases "currentPlanTotalSize s + Size d <s T")
      case False
      with True d "1.prems" show ?thesis
        by (auto simp: fillFromReverse.simps [of data T i s])
    next
      case fits: True
      let ?s2 = "(addToPlan d s)\<lparr>endIndex := endIndex s - 1\<rparr>"
      from fits True d "1.prems"
      have r: "fillFromReverse data T i ?s2 = Inr s'"
        by (simp add: fillFromReverse.simps [of data T i s])
      from "1.IH" [OF True d fits r]
      obtain ds where ds: "Pool (currentPlan s') = Pool (currentPlan ?s2) @ ds"
        "strictlyFits T (currentPlanTotalSize ?s2) ds"
        "int (length ds) = endIndex ?s2 - endIndex s'"
        by blast
      then have "Pool (currentPlan s') = Pool (currentPlan s) @ (d # ds)"
        and "strictlyFits T (currentPlanTotalSize s) (d # ds)"
        and "int (length (d # ds)) = endIndex s - endIndex s'"
        using fits by (simp_all add: addToPlan_def)
      then show ?thesis by blast
    qed
  qed
qed

text \<open>
  C6. Whatever the inner loop appends to the current plan, it appends one entry per step
  of \<open>endIndex\<close>, each only when the running total plus that entry's size is strictly less
  than the target; when the sum is exactly the target the inner loop stops without adding
  the entry (and clears \<open>canAddSmall\<close>); the forward rule at \<open>i\<close> adds an entry that brings
  the total to exactly the target.
\<close>

theorem backfill_strict_forward_inclusive:
  "(fillFromReverse data T i s = Inr s' \<longrightarrow>
      (\<exists>ds. Pool (currentPlan s') = Pool (currentPlan s) @ ds \<and>
            strictlyFits T (currentPlanTotalSize s) ds \<and>
            int (length ds) = endIndex s - endIndex s')) \<and>
   (i \<le> endIndex s \<and> index data (endIndex s) = Inr d \<and> currentPlanTotalSize s + Size d = T \<longrightarrow>
      fillFromReverse data T i s = Inr (s\<lparr>canAddSmall := False\<rparr>)) \<and>
   (index data i = Inr d \<and> currentPlanTotalSize s + Size d = T \<longrightarrow>
      fill data T i s = Inr (addToPlan d s))"
proof (intro conjI impI)
  assume "fillFromReverse data T i s = Inr s'"
  then show "\<exists>ds. Pool (currentPlan s') = Pool (currentPlan s) @ ds \<and>
            strictlyFits T (currentPlanTotalSize s) ds \<and>
            int (length ds) = endIndex s - endIndex s'"
    by (rule fillFromReverse_strictlyFits)
next
  assume "i \<le> endIndex s \<and> index data (endIndex s) = Inr d \<and> currentPlanTotalSize s + Size d = T"
  then show "fillFromReverse data T i s = Inr (s\<lparr>canAddSmall := False\<rparr>)"
    by (simp add: fillFromReverse.simps [of data T i s] word_sless_alt)
next
  assume "index data i = Inr d \<and> currentPlanTotalSize s + Size d = T"
  then show "fill data T i s = Inr (addToPlan d s)"
    by (simp add: fill_def word_sle_eq)
qed

text \<open>On scenario 1 with target 150 the inner loop adds \<open>d\<close> (100 + 5 < 150) and stops at
  \<open>c\<close>. With \<open>a\<close> of size 60 in the plan and target 100, the entry \<open>c\<close> of size 40 is refused
  by the inner loop and accepted by the forward rule.\<close>

theorem backfill_strict_forward_inclusive_witness:
  "fillFromReverse scenario1 150 1 (holding scenario1 \<lparr>Name = ''a'', Size = 100\<rparr>) =
     Inr ((holding scenario1 \<lparr>Name = ''a'', Size = 100\<rparr>)
           \<lparr>currentPlan := \<lparr>Pool = [\<lparr>Name = ''a'', Size = 100\<rparr>, \<lparr>Name = ''d'', Size = 5\<rparr>],
                             Writer = None\<rparr>,
            currentPlanTotalSize := 105, endIndex := 2, canAddSmall := False\<rparr>) \<and>
   (\<exists>ds. [\<lparr>Name = ''a'', Size = 100\<rparr>, \<lparr>Name = ''d'', Size = 5\<rparr>] = [\<lparr>Name = ''a'', Size = 100\<rparr>] @ ds \<and>
         strictlyFits 150 100 ds \<and> int (length ds) = 1) \<and>
   index exactFit 2 = Inr \<lparr>Name = ''c'', Size = 40\<rparr> \<and>
   currentPlanTotalSize (holding exactFit \<lparr>Name = ''a'', Size = 60\<rparr>) + 40 = 100 \<and>
   fillFromReverse exactFit 100 2 (holding exactFit \<lparr>Name = ''a'', Size = 60\<rparr>) =
     Inr ((holding exactFit \<lparr>Name = ''a'', Size = 60\<rparr>)\<lparr>canAddSmall := False\<rparr>) \<and>
   fill exactFit 100 2 (holding exactFit \<lparr>Name = ''a'', Size = 60\<rparr>) =
     Inr (addToPlan \<lparr>Name = ''c'', Size = 40\<rparr> (holding exactFit \<lparr>Name = ''a'', Size = 60\<rparr>))"
proof -
  let ?a = "\<lparr>Name = ''a'', Size = 100\<rparr>" and ?d = "\<lparr>Name = ''d'', Size = 5\<rparr>"
  let ?sA = "holding scenario1 ?a"
  let ?sA' = "?sA\<lparr>currentPlan := \<lparr>Pool = [?a, ?d], Writer = None\<rparr>,
            currentPlanTotalSize := 105, endIndex := 2, canAddSmall := False\<rparr>"
  let ?c = "\<lparr>Name = ''c'', Size = 40\<rparr>"
  let ?sB = "holding exactFit \<lparr>Name = ''a'', Size = 60\<rparr>"
  have run: "fillFromReverse scenario1 150 1 ?sA = Inr ?sA'"
    by (simp add: scenario1_def holding_def initVars_def fillFromReverse.simps index_def
        addToPlan_def word_sless_alt)
  have ix: "index exactFit 2 = Inr ?c"
    by (simp add: exactFit_def index_def)
  have tot: "currentPlanTotalSize ?sB + Size ?c = 100"
    by (simp add: holding_def)
  have e: "2 \<le> endIndex ?sB" "index exactFit (endIndex ?sB) = Inr ?c"
    using ix by (simp_all add: holding_def initVars_def exactFit_def)
  from backfill_strict_forward_inclusive [of scenario1 150 1 ?sA ?sA' ?d] run
  have 1: "\<exists>ds. [?a, ?d] = [?a] @ ds \<and> strictlyFits 150 100 ds \<and> int (length ds) = 1"
    by (simp add: holding_def initVars_def scenario1_def)
  from backfill_strict_forward_inclusive [of exactFit 100 2 ?sB ?sB ?c] ix tot e
  have 2: "fillFromReverse exactFit 100 2 ?sB = Inr (?sB\<lparr>canAddSmall := False\<rparr>)"
    and 3: "fill exactFit 100 2 ?sB = Inr (addToPlan ?c ?sB)"
    by simp_all
  from run 1 ix tot 2 3 show ?thesis by simp
qed

section \<open>The two copies of the bin packer (C10)\<close>

lemma main_loop_eq: "main_loop data targetSize i s = loop data targetSize i s"
proof (induction data targetSize i s rule: loop.induct)
  case (1 data targetSize i s)
  show ?case
  proof (cases "body data targetSize i s")
    case (Inl p)
    then show ?thesis
      by (simp add: loop.simps [of data targetSize i s]
          main_loop.simps [of data targetSize i s] main_body_eq)
  next
    case (Inr s')
    with "1.IH" [of s'] show ?thesis
      by (simp add: loop.simps [of data targetSize i s]
          main_loop.simps [of data targetSize i s] main_body_eq)
  qed
qed

text \<open>
  C10. For every inventory and every target size, \<open>buildTarPlan\<close> of \<open>src/main.go\<close> and
  \<open>buildTarPlan\<close> of \<open>src/cmd/root.go\<close> return the same result: the same plans, in the
  same order, each with the same entries in the same order.
\<close>

theorem main_buildTarPlan_eq:
  "main_buildTarPlan data targetSize = buildTarPlan data targetSize"
  by (simp add: main_buildTarPlan_def buildTarPlan_def main_initVars_def initVars_def
      main_loop_eq)

section \<open>Properties of the two passes and of the pipeline\<close>

subsection \<open>Evaluation on the concrete worlds\<close>

lemmas world_defs =
  quietWorld_def smallArchive_def bigArchive_def dirEntry_def fileA_def fileB_def bigA_def bigB_def
  TypeReg_def TypeDir_def

lemmas pass_defs =
  generateSlice_def createNewTars_def tarreader_def genericReader_def readAll_def
  filepath_Ext_def filepath_Base_def writeTo_def

lemmas plan_defs =
  buildTarPlan_def initVars_def loop.simps body_def fill_def index_def fillFromReverse.simps
  closePlan_def markFinished_def addToPlan_def word_sle_eq word_sless_alt

subsection \<open>The decompressed stream is not the one parsed (C1)\<close>

text \<open>A name that ends in \<open>.gz\<close> has the extension \<open>.gz\<close>.\<close>

lemma filepath_Ext_gz: "filepath_Ext (stem @ ''.gz'') = ''.gz''"
  by (simp add: filepath_Ext_def)

text \<open>
  C1. The claim is that for a source whose name ends in \<open>.gz\<close> both passes hand the
  decompressed stream to the tar reader. They do not: in both functions the
  decompressed stream is bound to a variable declared inside the \<open>.gz\<close> branch (lines 89
  and 187), and the variable that \<open>tar.NewReader\<close> receives (lines 98 and 196) is still
  \<open>nil\<close>. Whenever such a source opens and its gzip header is read, the indexing pass
  panics at its first \<open>Next()\<close>, and the rewrite pass parses nothing and does not return
  \<open>nil\<close>.
\<close>

theorem gz_source_reaches_the_tar_reader_as_nil:
  assumes "filename = stem @ ''.gz''"
    and "os_Open w filename = Inr osReader"
    and "gzip_NewReader w osReader = Inr decompressed"
  shows "tarreader w filename = Inr None \<and> tarreader w filename \<noteq> Inr (Some decompressed) \<and>
         genericReader w filename = Inr None \<and> genericReader w filename \<noteq> Inr (Some decompressed) \<and>
         generateSlice w filename = Inl NilDereference \<and>
         fst (createNewTars w filename planList) \<noteq> Inr None \<and>
         parsed w filename = []"
proof -
  have e: "filepath_Ext filename = ''.gz''"
    unfolding assms(1) by (rule filepath_Ext_gz)
  have t: "tarreader w filename = Inr None" using e assms(2,3) by (simp add: tarreader_def)
  have g: "genericReader w filename = Inr None" using e assms(2,3) by (simp add: genericReader_def)
  have s: "generateSlice w filename = Inl NilDereference"
    using t by (simp add: generateSlice_def readAll_def)
  have c: "fst (createNewTars w filename planList) \<noteq> Inr None"
    using g by (auto simp: createNewTars_def readAll_def split: prod.splits sum.splits)
  have p: "parsed w filename = []" using g by (simp add: parsed_def)
  from t g s c p show ?thesis by simp
qed

theorem gz_source_reaches_the_tar_reader_as_nil_witness:
  "''layer.tar.gz'' = ''layer.tar'' @ ''.gz'' \<and>
   os_Open (quietWorld smallArchive) ''layer.tar.gz'' = Inr [] \<and>
   gzip_NewReader (quietWorld smallArchive) [] = Inr [] \<and>
   tarreader (quietWorld smallArchive) ''layer.tar.gz'' = Inr None \<and>
   genericReader (quietWorld smallArchive) ''layer.tar.gz'' = Inr None \<and>
   generateSlice (quietWorld smallArchive) ''layer.tar.gz'' = Inl NilDereference \<and>
   fst (createNewTars (quietWorld smallArchive) ''layer.tar.gz'' []) \<noteq> Inr None"
proof -
  have 0: "''layer.tar.gz'' = ''layer.tar'' @ ''.gz''" by simp
  have 1: "os_Open (quietWorld smallArchive) ''layer.tar.gz'' = Inr []"
    and 2: "gzip_NewReader (quietWorld smallArchive) [] = Inr []"
    by (simp_all add: quietWorld_def)
  from gz_source_reaches_the_tar_reader_as_nil [OF 0 1 2, of "[]"] 1 2
  show ?thesis by simp
qed

subsection \<open>Only regular files, in source order (C7)\<close>

lemma regularItems_simps [simp]:
  "regularItems [] = []"
  "regularItems (NextNil # rest) = regularItems rest"
  "regularItems (NextErr err # rest) = regularItems rest"
  "regularItems (Next header payload # rest) =
     (if Typeflag header = TypeReg then [WroteHeader header, WrotePayload payload] else []) @
     regularItems rest"
  by (simp_all add: regularItems_def regular_def)

lemma length_writeTo [simp]: "length (writeTo mw x outs) = length outs"
  by (simp add: writeTo_def)

lemma nth_writeTo:
  "k < length outs \<Longrightarrow>
     writeTo mw x outs ! k = (if k = mw then outs ! k @ [x] else outs ! k)"
  by (simp add: writeTo_def nth_list_update)

lemma rewrite_subseq:
  "rewrite w m tr outs0 = (r, outs) \<Longrightarrow>
     length outs = length outs0 \<and>
     (\<forall>k < length outs0. \<exists>ys. outs ! k = outs0 ! k @ ys \<and> subseq ys (regularItems tr))"
proof (induction w m tr outs0 arbitrary: r outs rule: rewrite.induct)
  case (1 w m outs0)
  then show ?case by simp
next
  case (2 w m err rest outs0)
  then show ?case by simp
next
  case (3 w m rest outs0)
  then show ?case by simp
next
  case (4 w m header payload rest outs0)
  show ?case
  proof (cases "Typeflag header = TypeReg")
    case False
    with "4.prems" have "rewrite w m rest outs0 = (r, outs)" by simp
    from "4.IH"(2) [OF False this] False show ?thesis by simp
  next
    case reg: True
    show ?thesis
    proof (cases "m (Header_Name header)")
      case None
      with reg "4.prems" show ?thesis by auto
    next
      case (Some mw)
      show ?thesis
      proof (cases "WriteHeader w mw header")
        case (Some err)
        with reg \<open>m (Header_Name header) = Some mw\<close> "4.prems" show ?thesis by auto
      next
        case wh: None
        show ?thesis
        proof (cases "io_Copy w mw header")
          case (Some err)
          with reg \<open>m (Header_Name header) = Some mw\<close> wh "4.prems"
          have outs: "outs = writeTo mw (WroteHeader header) outs0" by auto
          have "\<exists>ys. outs ! k = outs0 ! k @ ys \<and>
              subseq ys (regularItems (Next header payload # rest))" if "k < length outs0" for k
          proof (cases "k = mw")
            case True
            have "subseq [WroteHeader header]
                ([WroteHeader header, WrotePayload payload] @ regularItems rest)"
              by simp
            with True that outs show ?thesis
              using reg by (simp add: nth_writeTo)
          next
            case False
            with that outs show ?thesis by (simp add: nth_writeTo)
          qed
          with outs show ?thesis by simp
        next
          case cp: None
          let ?outs1 = "writeTo mw (WrotePayload payload) (writeTo mw (WroteHeader header) outs0)"
          from reg \<open>m (Header_Name header) = Some mw\<close> wh cp "4.prems"
          have "rewrite w m rest ?outs1 = (r, outs)" by simp
          from "4.IH"(1) [OF reg \<open>m (Header_Name header) = Some mw\<close> wh cp this]
          have len: "length outs = length outs0"
            and ih: "\<And>k. k < length outs0 \<Longrightarrow>
              \<exists>ys. outs ! k = ?outs1 ! k @ ys \<and> subseq ys (regularItems rest)"
            by simp_all
          have "\<exists>ys. outs ! k = outs0 ! k @ ys \<and>
              subseq ys (regularItems (Next header payload # rest))" if "k < length outs0" for k
          proof -
            from ih [OF that] obtain ys where ys: "outs ! k = ?outs1 ! k @ ys"
              "subseq ys (regularItems rest)" by blast
            show ?thesis
            proof (cases "k = mw")
              case True
              with ys that have "outs ! k = outs0 ! k @ ([WroteHeader header, WrotePayload payload] @ ys)"
                by (simp add: nth_writeTo)
              moreover have "subseq ([WroteHeader header, WrotePayload payload] @ ys)
                  ([WroteHeader header, WrotePayload payload] @ regularItems rest)"
                using ys(2) by (intro list_emb_append_mono) simp_all
              ultimately show ?thesis using reg by auto
            next
              case False
              with ys that have "outs ! k = outs0 ! k @ ys"
                by (simp add: nth_writeTo)
              moreover have "subseq ys ([WroteHeader header, WrotePayload payload] @ regularItems rest)"
                using ys(2) by (rule list_emb_append2)
              ultimately show ?thesis using reg by auto
            qed
          qed
          with len show ?thesis by simp
        qed
      qed
    qed
  qed
qed

lemma createTarballs_outs:
  "createTarballs w fn planList m outs = (r, outs') \<Longrightarrow>
     \<exists>n. outs' = outs @ replicate n []"
proof (induction planList arbitrary: m outs)
  case Nil
  then show ?case by simp
next
  case (Cons plan rest)
  show ?case
  proof (cases "os_Create w (int (length outs)) fn")
    case (Some err)
    with Cons.prems show ?thesis by simp
  next
    case None
    with Cons.prems
    have "createTarballs w fn rest (assign (length outs) (Pool plan) m) (outs @ [[]]) = (r, outs')"
      by simp
    from Cons.IH [OF this] obtain n where "outs' = (outs @ [[]]) @ replicate n []" ..
    then have "outs' = outs @ replicate (Suc n) []" by simp
    then show ?thesis ..
  qed
qed

lemma regularItems_headers:
  "WroteHeader header \<in> set (regularItems tr) \<Longrightarrow> Typeflag header = TypeReg"
  by (induction tr rule: entriesRead.induct) (auto split: if_splits)

lemma createNewTars_cases:
  assumes "createNewTars w filename planList = (r, outs)"
  shows "(\<exists>n. outs = replicate n []) \<or>
     (\<exists>bs m n err. genericReader w filename = Inr (Some bs) \<and>
        rewrite w m (tar_NewReader w bs) (replicate n []) = (err, outs))"
proof (cases "genericReader w filename")
  case (Inl err)
  with assms have "outs = replicate 0 []" by (simp add: createNewTars_def)
  then show ?thesis by blast
next
  case (Inr rd)
  obtain c outs1 where
    c: "createTarballs w (filepath_Base filename) planList Map.empty [] = (c, outs1)"
    by (cases "createTarballs w (filepath_Base filename) planList Map.empty []")
  from createTarballs_outs [OF c] obtain n where n: "outs1 = replicate n []" by auto
  show ?thesis
  proof (cases c)
    case (Inl err)
    with assms Inr c n have "outs = replicate n []" by (simp add: createNewTars_def)
    then show ?thesis by blast
  next
    case m: (Inr m)
    show ?thesis
    proof (cases rd)
      case None
      with assms Inr c m n have "outs = replicate n []"
        by (simp add: createNewTars_def readAll_def)
      then show ?thesis by blast
    next
      case (Some bs)
      with assms Inr c m n
      have "rewrite w m (tar_NewReader w bs) (replicate n []) = (case r of Inr e \<Rightarrow> e, outs)"
        by (auto simp: createNewTars_def readAll_def split: prod.splits)
      with Inr Some show ?thesis by blast
    qed
  qed
qed

text \<open>
  C7. Whatever the source and the plans, and however the pass ends, what has been written
  to each destination is a subsequence of the headers and payloads of the regular-file
  entries of the stream the pass parses, in the order of that stream: only regular-file
  entries are written, an entry of any other kind is written to no destination, and the
  entries of each destination are in source order.
\<close>

theorem only_regular_files_in_source_order:
  assumes "createNewTars w filename planList = (r, outs)" and "k < length outs"
  shows "subseq (outs ! k) (regularItems (parsed w filename)) \<and>
         (\<forall>header. WroteHeader header \<in> set (outs ! k) \<longrightarrow> Typeflag header = TypeReg)"
proof -
  have sub: "subseq (outs ! k) (regularItems (parsed w filename))"
    using createNewTars_cases [OF assms(1)]
  proof (elim disjE exE conjE)
    fix n assume "outs = replicate n []"
    with assms(2) show ?thesis by simp
  next
    fix bs m n err
    assume g: "genericReader w filename = Inr (Some bs)"
      and rw: "rewrite w m (tar_NewReader w bs) (replicate n []) = (err, outs)"
    from rewrite_subseq [OF rw] assms(2)
    obtain ys where "outs ! k = replicate n [] ! k @ ys" "subseq ys (regularItems (tar_NewReader w bs))"
      by auto
    moreover have "k < n" using rewrite_subseq [OF rw] assms(2) by simp
    ultimately show ?thesis using g by (simp add: parsed_def)
  qed
  moreover have "Typeflag header = TypeReg" if "WroteHeader header \<in> set (outs ! k)" for header
  proof -
    from sub that obtain y where "y \<in> set (regularItems (parsed w filename))" "WroteHeader header = y"
      by (rule list_emb_set)
    then have "WroteHeader header \<in> set (regularItems (parsed w filename))" by simp
    then show ?thesis by (rule regularItems_headers)
  qed
  ultimately show ?thesis by blast
qed

text \<open>Scenario 5 of the specification: a directory and two regular files; the directory
  is in no destination.\<close>

lemma smallArchive_rewritten:
  "createNewTars (quietWorld smallArchive) ''layer.tar''
      [\<lparr>Pool = [\<lparr>Name = ''etc/'', Size = 0\<rparr>, \<lparr>Name = ''etc/a'', Size = 3\<rparr>,
                \<lparr>Name = ''etc/b'', Size = 2\<rparr>], Writer = None\<rparr>] =
   (Inr None, [[WroteHeader fileA, WrotePayload ''aaa'', WroteHeader fileB, WrotePayload ''bb'']])"
  by (simp add: pass_defs world_defs)

lemma smallArchive_parsed:
  "parsed (quietWorld smallArchive) ''layer.tar'' = smallArchive"
  by (simp add: parsed_def genericReader_def filepath_Ext_def quietWorld_def)

theorem only_regular_files_in_source_order_witness:
  "createNewTars (quietWorld smallArchive) ''layer.tar''
      [\<lparr>Pool = [\<lparr>Name = ''etc/'', Size = 0\<rparr>, \<lparr>Name = ''etc/a'', Size = 3\<rparr>,
                \<lparr>Name = ''etc/b'', Size = 2\<rparr>], Writer = None\<rparr>] =
   (Inr None, [[WroteHeader fileA, WrotePayload ''aaa'', WroteHeader fileB, WrotePayload ''bb'']]) \<and>
   subseq [WroteHeader fileA, WrotePayload ''aaa'', WroteHeader fileB, WrotePayload ''bb'']
     (regularItems smallArchive) \<and>
   Typeflag fileB = TypeReg \<and> Typeflag dirEntry \<noteq> TypeReg"
proof -
  let ?out = "[WroteHeader fileA, WrotePayload ''aaa'', WroteHeader fileB, WrotePayload ''bb'']"
  have k: "0 < length [?out]" by simp
  from only_regular_files_in_source_order [OF smallArchive_rewritten k]
  have sub: "subseq ([?out] ! 0) (regularItems (parsed (quietWorld smallArchive) ''layer.tar''))"
    and reg: "\<forall>header. WroteHeader header \<in> set ([?out] ! 0) \<longrightarrow> Typeflag header = TypeReg"
    by blast+
  from sub have 1: "subseq ?out (regularItems smallArchive)"
    by (simp only: nth_Cons_0 smallArchive_parsed)
  have "WroteHeader fileB \<in> set ([?out] ! 0)" by simp
  with reg have 2: "Typeflag fileB = TypeReg" by blast
  have 3: "Typeflag dirEntry \<noteq> TypeReg"
    by (simp add: dirEntry_def TypeReg_def TypeDir_def)
  from smallArchive_rewritten 1 2 3 show ?thesis by (intro conjI)
qed

subsection \<open>The missing writer is the only error (C8)\<close>

lemma createTarballs_created:
  assumes "\<forall>i. os_Create w i fn = None"
  shows "createTarballs w fn planList m outs =
     (Inr (assignAll (length outs) planList m), outs @ replicate (length planList) [])"
proof (induction planList arbitrary: m outs)
  case Nil
  show ?case by simp
next
  case (Cons plan rest)
  have "replicate (length rest) [] @ [[]] = [] # replicate (length rest) ([] :: 'b written list)"
    by (simp add: replicate_append_same)
  then show ?case
    using assms Cons.IH [of "assign (length outs) (Pool plan) m" "outs @ [[]]"]
    by (simp add: replicate_app_Cons_same)
qed

lemma rewrite_completes:
  assumes "\<forall>mw header. WriteHeader w mw header = None \<and> io_Copy w mw header = None"
  shows "\<forall>ev \<in> set tr. \<not> readFails ev \<and> \<not> unrouted m ev \<Longrightarrow> fst (rewrite w m tr outs) = None"
  using assms
proof (induction w m tr outs rule: rewrite.induct)
  case (4 w m header payload rest outs)
  then show ?case by (cases "m (Header_Name header)") auto
qed simp_all

lemma rewrite_stops:
  assumes "\<forall>mw header. WriteHeader w mw header = None \<and> io_Copy w mw header = None"
    and "Typeflag header = TypeReg" "m (Header_Name header) = None"
  shows "\<forall>ev \<in> set before. \<not> readFails ev \<and> \<not> unrouted m ev \<Longrightarrow>
     rewrite w m (before @ Next header payload # after) outs =
       (Some (MissingWriterPtr (Header_Name header)), snd (rewrite w m before outs))"
  using assms
proof (induction w m before outs rule: rewrite.induct)
  case (4 w m h p rest outs)
  then show ?case by (cases "m (Header_Name h)") auto
qed simp_all

lemma set_nth_writeTo:
  "k < length outs \<Longrightarrow> y \<in> set (writeTo mw x outs ! k) \<Longrightarrow> y \<in> set (outs ! k) \<or> (y = x \<and> k = mw)"
  by (auto simp: nth_writeTo split: if_splits)

lemma rewrite_headers_routed:
  "rewrite w m tr outs0 = (r, outs) \<Longrightarrow> k < length outs0 \<Longrightarrow>
     WroteHeader h \<in> set (outs ! k) \<Longrightarrow>
     WroteHeader h \<in> set (outs0 ! k) \<or> m (Header_Name h) = Some k"
proof (induction w m tr outs0 arbitrary: r outs rule: rewrite.induct)
  case (1 w m outs0)
  then show ?case by simp
next
  case (2 w m err rest outs0)
  then show ?case by simp
next
  case (3 w m rest outs0)
  then show ?case by simp
next
  case (4 w m header payload rest outs0)
  show ?case
  proof (cases "Typeflag header = TypeReg")
    case False
    with "4.prems" have "rewrite w m rest outs0 = (r, outs)" by simp
    from "4.IH"(2) [OF False this "4.prems"(2,3)] show ?thesis .
  next
    case reg: True
    show ?thesis
    proof (cases "m (Header_Name header)")
      case None
      with reg "4.prems" show ?thesis by auto
    next
      case (Some mw)
      show ?thesis
      proof (cases "WriteHeader w mw header")
        case (Some err)
        with reg \<open>m (Header_Name header) = Some mw\<close> "4.prems" show ?thesis by auto
      next
        case wh: None
        let ?outs1 = "writeTo mw (WroteHeader header) outs0"
        have one: "WroteHeader h \<in> set (outs0 ! k) \<or> m (Header_Name h) = Some k"
          if "WroteHeader h \<in> set (?outs1 ! k)"
          using set_nth_writeTo [OF "4.prems"(2) that] \<open>m (Header_Name header) = Some mw\<close>
          by auto
        show ?thesis
        proof (cases "io_Copy w mw header")
          case (Some err)
          with reg \<open>m (Header_Name header) = Some mw\<close> wh "4.prems"
          have "outs = ?outs1" by auto
          with "4.prems"(3) one show ?thesis by simp
        next
          case cp: None
          let ?outs2 = "writeTo mw (WrotePayload payload) ?outs1"
          from reg \<open>m (Header_Name header) = Some mw\<close> wh cp "4.prems"
          have rw: "rewrite w m rest ?outs2 = (r, outs)" by simp
          have k2: "k < length ?outs2" using "4.prems"(2) by simp
          from "4.IH"(1) [OF reg \<open>m (Header_Name header) = Some mw\<close> wh cp rw k2 "4.prems"(3)]
          have "WroteHeader h \<in> set (?outs2 ! k) \<or> m (Header_Name h) = Some k" .
          then show ?thesis
          proof
            assume "WroteHeader h \<in> set (?outs2 ! k)"
            then have "WroteHeader h \<in> set (?outs1 ! k)"
              using set_nth_writeTo [of k ?outs1 "WroteHeader h" mw "WrotePayload payload"]
                "4.prems"(2) by auto
            then show ?thesis by (rule one)
          qed simp
        qed
      qed
    qed
  qed
qed

lemma unrouted_Next:
  "unrouted m ev \<Longrightarrow> \<exists>header payload. ev = Next header payload \<and>
     Typeflag header = TypeReg \<and> m (Header_Name header) = None"
  by (cases ev) simp_all

text \<open>
  C8. Without a failure of the underlying input and output, the rewrite pass returns an
  error exactly when the stream it parses holds a regular-file entry whose name the
  routing table does not map. The error is then the one of line 231 and names the first
  such entry; the destinations hold what the entries before it have written, nothing of
  that entry or a later one, and the entry's header is in no destination. (For a \<open>.gz\<close>
  name the pass parses nothing and panics, see C1: it returns no error, and meets no
  entry.)
\<close>

theorem missing_writer_is_the_only_error:
  assumes "noIOFailure w filename"
  shows "((\<exists>err. fst (createNewTars w filename planList) = Inr (Some err)) \<longleftrightarrow>
          (\<exists>ev \<in> set (parsed w filename). unrouted (routingTable planList) ev)) \<and>
    (\<forall>err. fst (createNewTars w filename planList) = Inr (Some err) \<longrightarrow>
       (\<exists>before header payload after.
          parsed w filename = before @ Next header payload # after \<and>
          (\<forall>ev \<in> set before. \<not> unrouted (routingTable planList) ev) \<and>
          Typeflag header = TypeReg \<and> routingTable planList (Header_Name header) = None \<and>
          err = MissingWriterPtr (Header_Name header) \<and>
          snd (createNewTars w filename planList) =
            snd (rewrite w (routingTable planList) before (replicate (length planList) [])) \<and>
          (\<forall>k < length planList.
             WroteHeader header \<notin> set (snd (createNewTars w filename planList) ! k))))"
    (is "(?L \<longleftrightarrow> ?R) \<and> (\<forall>err. ?E err \<longrightarrow> ?Q err)")
proof -
  let ?m = "routingTable planList"
  let ?outs0 = "replicate (length planList) [] :: 'a written list list"
  from assms obtain rd where rd: "genericReader w filename = Inr rd"
    unfolding noIOFailure_def by blast
  from assms have cr: "\<forall>i. os_Create w i (filepath_Base filename) = None"
    and wr: "\<forall>mw header. WriteHeader w mw header = None \<and> io_Copy w mw header = None"
    and nf: "\<forall>ev \<in> set (parsed w filename). \<not> readFails ev"
    unfolding noIOFailure_def by blast+
  have ct: "createTarballs w (filepath_Base filename) planList Map.empty [] = (Inr ?m, ?outs0)"
    using createTarballs_created [OF cr, of planList Map.empty "[]"]
    by (simp add: routingTable_def)
  show ?thesis
  proof (cases rd)
    case None
    have e: "parsed w filename = []" using rd None by (simp add: parsed_def)
    have f: "fst (createNewTars w filename planList) = Inl NilDereference"
      using rd None ct by (simp add: createNewTars_def readAll_def)
    have "\<not> ?L" "\<not> ?R" "\<And>err. \<not> ?E err"
      using e f by simp_all
    then show ?thesis by blast
  next
    case (Some bs)
    let ?tr = "tar_NewReader w bs"
    have p: "parsed w filename = ?tr" using rd Some by (simp add: parsed_def)
    have res: "createNewTars w filename planList =
        (Inr (fst (rewrite w ?m ?tr ?outs0)), snd (rewrite w ?m ?tr ?outs0))"
      using rd Some ct by (simp add: createNewTars_def readAll_def split: prod.splits)
    show ?thesis
    proof (cases ?R)
      case False
      with nf have "\<forall>ev \<in> set ?tr. \<not> readFails ev \<and> \<not> unrouted ?m ev"
        unfolding p by blast
      from rewrite_completes [OF wr this, of ?outs0]
      have "fst (rewrite w ?m ?tr ?outs0) = None" .
      with res have f: "fst (createNewTars w filename planList) = Inr None" by simp
      have "\<not> ?L" "\<And>err. \<not> ?E err" using f by simp_all
      with False show ?thesis by blast
    next
      case True
      then have "\<exists>ev \<in> set ?tr. unrouted ?m ev" unfolding p .
      then obtain before ev after where sp: "?tr = before @ ev # after"
        and ev: "unrouted ?m ev" and bf: "\<forall>y \<in> set before. \<not> unrouted ?m y"
        using split_list_first_prop [of ?tr "unrouted ?m"] by blast
      from unrouted_Next [OF ev] obtain header payload where
        h: "ev = Next header payload" "Typeflag header = TypeReg" "?m (Header_Name header) = None"
        by blast
      have sp': "parsed w filename = before @ Next header payload # after"
        unfolding p sp h(1) ..
      have "set before \<subseteq> set (parsed w filename)" unfolding sp' by auto
      with nf bf have "\<forall>y \<in> set before. \<not> readFails y \<and> \<not> unrouted ?m y"
        by blast
      from rewrite_stops [OF wr h(2,3) this, of payload after ?outs0]
      have rw: "rewrite w ?m ?tr ?outs0 =
          (Some (MissingWriterPtr (Header_Name header)), snd (rewrite w ?m before ?outs0))"
        unfolding sp h(1) .
      have f: "fst (createNewTars w filename planList) =
          Inr (Some (MissingWriterPtr (Header_Name header)))"
        unfolding res rw by simp
      have o: "snd (createNewTars w filename planList) = snd (rewrite w ?m before ?outs0)"
        unfolding res rw by simp
      have nowhere: "\<forall>k < length planList.
          WroteHeader header \<notin> set (snd (createNewTars w filename planList) ! k)"
      proof (intro allI impI notI)
        fix k assume k: "k < length planList"
          and a: "WroteHeader header \<in> set (snd (createNewTars w filename planList) ! k)"
        have r: "rewrite w ?m before ?outs0 =
            (fst (rewrite w ?m before ?outs0), snd (rewrite w ?m before ?outs0))" by simp
        have k': "k < length ?outs0" using k by simp
        from a have a': "WroteHeader header \<in> set (snd (rewrite w ?m before ?outs0) ! k)"
          unfolding o .
        from rewrite_headers_routed [OF r k' a'] k h(3) show False by simp
      qed
      have q: "?Q (MissingWriterPtr (Header_Name header))"
        using sp' bf h(2,3) o nowhere by blast
      have "?Q err" if "?E err" for err
      proof -
        from that f have "err = MissingWriterPtr (Header_Name header)" by simp
        with q show ?thesis by simp
      qed
      moreover have ?L using f by blast
      ultimately show ?thesis using True by blast
    qed
  qed
qed

text \<open>The archive above with a plan that lacks \<open>etc/b\<close>: the pass stops at that entry.\<close>

lemma smallArchive_noIOFailure: "noIOFailure (quietWorld smallArchive) ''layer.tar''"
  by (simp add: noIOFailure_def smallArchive_parsed)
     (simp add: genericReader_def filepath_Ext_def quietWorld_def smallArchive_def)

theorem missing_writer_is_the_only_error_witness:
  "noIOFailure (quietWorld smallArchive) ''layer.tar'' \<and>
   routingTable [\<lparr>Pool = [\<lparr>Name = ''etc/a'', Size = 3\<rparr>], Writer = None\<rparr>] ''etc/b'' = None \<and>
   (\<exists>err. fst (createNewTars (quietWorld smallArchive) ''layer.tar''
              [\<lparr>Pool = [\<lparr>Name = ''etc/a'', Size = 3\<rparr>], Writer = None\<rparr>]) = Inr (Some err)) \<and>
   createNewTars (quietWorld smallArchive) ''layer.tar''
      [\<lparr>Pool = [\<lparr>Name = ''etc/a'', Size = 3\<rparr>], Writer = None\<rparr>] =
     (Inr (Some (MissingWriterPtr ''etc/b'')), [[WroteHeader fileA, WrotePayload ''aaa'']])"
proof -
  let ?P = "[\<lparr>Pool = [\<lparr>Name = ''etc/a'', Size = 3\<rparr>], Writer = None\<rparr>]"
  have r: "routingTable ?P ''etc/b'' = None"
    by (simp add: routingTable_def)
  then have "unrouted (routingTable ?P) (Next fileB ''bb'')"
    by (simp add: fileB_def)
  then have "\<exists>ev \<in> set smallArchive. unrouted (routingTable ?P) ev"
    by (simp add: smallArchive_def)
  then have "\<exists>ev \<in> set (parsed (quietWorld smallArchive) ''layer.tar''). unrouted (routingTable ?P) ev"
    unfolding smallArchive_parsed .
  with missing_writer_is_the_only_error [OF smallArchive_noIOFailure, of ?P]
  have "\<exists>err. fst (createNewTars (quietWorld smallArchive) ''layer.tar'' ?P) = Inr (Some err)"
    by blast
  moreover have "createNewTars (quietWorld smallArchive) ''layer.tar'' ?P =
     (Inr (Some (MissingWriterPtr ''etc/b'')), [[WroteHeader fileA, WrotePayload ''aaa'']])"
    by (simp add: pass_defs world_defs)
  ultimately show ?thesis using smallArchive_noIOFailure r by simp
qed

subsection \<open>The budget handed to the bin packer (C5)\<close>

lemma bigArchive_inventory:
  "generateSlice (quietWorld bigArchive) ''layer.tar'' =
     Inr ([\<lparr>Name = ''b'', Size = 3000000000\<rparr>, \<lparr>Name = ''a'', Size = 4000000000\<rparr>], None)"
  by (simp add: pass_defs world_defs)

lemma bigArchive_sorted:
  "sort_Reverse (quietWorld bigArchive)
     [\<lparr>Name = ''b'', Size = 3000000000\<rparr>, \<lparr>Name = ''a'', Size = 4000000000\<rparr>] =
     [\<lparr>Name = ''a'', Size = 4000000000\<rparr>, \<lparr>Name = ''b'', Size = 3000000000\<rparr>]"
  by (simp add: quietWorld_def)

lemma bigArchive_one_plan:
  "buildTarPlan [\<lparr>Name = ''a'', Size = 4000000000\<rparr>, \<lparr>Name = ''b'', Size = 3000000000\<rparr>]
       8600000000 =
     Inr [\<lparr>Pool = [\<lparr>Name = ''a'', Size = 4000000000\<rparr>, \<lparr>Name = ''b'', Size = 3000000000\<rparr>],
           Writer = None\<rparr>]"
  by (simp add: plan_defs)

lemma bigArchive_rewritten:
  "createNewTars (quietWorld bigArchive) ''layer.tar''
     [\<lparr>Pool = [\<lparr>Name = ''a'', Size = 4000000000\<rparr>, \<lparr>Name = ''b'', Size = 3000000000\<rparr>],
       Writer = None\<rparr>] =
     (Inr None, [[WroteHeader bigB, WrotePayload ''payload of b'',
                  WroteHeader bigA, WrotePayload ''payload of a'']])"
  by (simp add: pass_defs world_defs)

lemma bigArchive_split:
  "split (quietWorld bigArchive) targetsize_default ''layer.tar'' =
     (Done, [[WroteHeader bigB, WrotePayload ''payload of b'',
              WroteHeader bigA, WrotePayload ''payload of a'']])"
  by (simp add: split_def bigArchive_inventory bigArchive_sorted bigArchive_one_plan
      bigArchive_rewritten)

lemma bigArchive_plans:
  "buildTarPlan [\<lparr>Name = ''a'', Size = 4000000000\<rparr>, \<lparr>Name = ''b'', Size = 3000000000\<rparr>]
       targetsize_default =
     Inr [\<lparr>Pool = [\<lparr>Name = ''a'', Size = 4000000000\<rparr>], Writer = None\<rparr>,
          \<lparr>Pool = [\<lparr>Name = ''b'', Size = 3000000000\<rparr>], Writer = None\<rparr>]"
  by (simp add: plan_defs targetsize_default_def)

lemma split_flag_unused: "split w targetSize_flag filename = split w 8600000000 filename"
  by (simp add: split_def)

text \<open>
  C5. The claim is that the budget passed to \<open>buildTarPlan\<close> is the target-size
  parameter, 5368709120 by default. The code passes the constant 8600000000 of line 70
  whatever the flag holds: with the flag at its default, an archive of a 4000000000-byte
  and a 3000000000-byte file is rewritten into a single destination of 7000000000 bytes,
  where the budget of the flag gives two plans.
\<close>

theorem split_ignores_the_targetsize_flag:
  "split (quietWorld bigArchive) targetsize_default ''layer.tar'' =
     (Done, [[WroteHeader bigB, WrotePayload ''payload of b'',
              WroteHeader bigA, WrotePayload ''payload of a'']]) \<and>
   buildTarPlan [\<lparr>Name = ''a'', Size = 4000000000\<rparr>, \<lparr>Name = ''b'', Size = 3000000000\<rparr>]
       targetsize_default =
     Inr [\<lparr>Pool = [\<lparr>Name = ''a'', Size = 4000000000\<rparr>], Writer = None\<rparr>,
          \<lparr>Pool = [\<lparr>Name = ''b'', Size = 3000000000\<rparr>], Writer = None\<rparr>] \<and>
   split w targetSize_flag filename = split w 8600000000 filename"
  using bigArchive_split bigArchive_plans split_flag_unused [of w targetSize_flag filename]
  by (intro conjI)

end
